theory Spec2Isabelle
  imports Complex_Main "HOL-Library.Log_Nat" "HOL-Library.AList"
begin

section \<open>Python values used by the performance monitor\<close>

subsection \<open>Exceptions\<close>

text \<open>
  The exceptions that the calls made by \<open>performance_monitor.py\<close> can raise. All of
  them but \<open>KeyboardInterrupt\<close> and \<open>SystemExit\<close> derive from Python's \<open>Exception\<close>,
  which is what the two \<open>except Exception\<close> clauses of the monitor catch.
\<close>

datatype py_exn =
    NotFound
  | APIError
  | RequestException
  | KeyError
  | ZeroDivisionError
  | OverflowError
  | ValueError
  | OSError
  | KeyboardInterrupt
  | SystemExit

fun is_Exception :: "py_exn \<Rightarrow> bool" where
  "is_Exception KeyboardInterrupt = False"
| "is_Exception SystemExit = False"
| "is_Exception _ = True"

subsection \<open>Floats\<close>

text \<open>
  A Python float is an IEEE 754 binary64 value. A finite non-zero value and \<open>+0.0\<close> are
  \<open>Fin x\<close> with \<open>x\<close> the rational the float denotes; \<open>-0.0\<close>, the infinities and the
  not-a-number value are constructors of their own.
\<close>

datatype pyfloat = Fin rat | MinusZero | PosInf | NegInf | NaN

definition pow2 :: "int \<Rightarrow> rat" where
  "pow2 e = (if 0 \<le> e then 2 ^ nat e else 1 / 2 ^ nat (- e))"

text \<open>Rounding a rational to the nearest integer, a tie going to the even one.\<close>

definition rne :: "rat \<Rightarrow> int" where
  "rne x =
     (let f = \<lfloor>x\<rfloor>; d = x - of_int f
      in if d < 1 / 2 then f
         else if 1 / 2 < d then f + 1
         else if even f then f else f + 1)"

text \<open>The binary exponent of a positive rational: \<open>pow2 e \<le> x < pow2 (e + 1)\<close>.\<close>

definition ilog2 :: "rat \<Rightarrow> int" where
  "ilog2 x =
     (let (p, q) = quotient_of x; e = bitlen p - bitlen q
      in if pow2 e \<le> x then e else e - 1)"

text \<open>
  The binary64 value nearest to a non-zero rational (ties to even): 53 significant bits,
  the exponent \<open>q\<close> of the last place never below \<open>-1074\<close> (subnormal numbers). The
  result is \<open>m * 2 ^ q\<close> for the integer \<open>m\<close>; it is an infinity when it reaches
  \<open>2 ^ 1024\<close>, which is when \<open>m\<close> has more than \<open>1024 - q\<close> bits. A result that rounds to
  zero keeps the sign of \<open>x\<close>.
\<close>

definition round_double :: "rat \<Rightarrow> pyfloat" where
  "round_double x =
     (let q = max (ilog2 \<bar>x\<bar> - 52) (- 1074);
          m = rne (x / pow2 q)
      in if 1024 < bitlen \<bar>m\<bar> + q then (if 0 < x then PosInf else NegInf)
         else if m = 0 then (if x < 0 then MinusZero else Fin 0)
         else Fin (of_int m * pow2 q))"

text \<open>
  \<open>a / b\<close> on two Python ints: the correctly rounded quotient; \<open>ZeroDivisionError\<close> for
  a zero divisor and \<open>OverflowError\<close> when the quotient is too large for a float. A zero
  quotient is negative when exactly one operand is.
\<close>

definition int_truediv :: "int \<Rightarrow> int \<Rightarrow> py_exn + pyfloat" where
  "int_truediv a b =
     (if b = 0 then Inl ZeroDivisionError
      else if a = 0 then Inr (if b < 0 then MinusZero else Fin 0)
      else case round_double (of_int a / of_int b) of
             PosInf \<Rightarrow> Inl OverflowError
           | NegInf \<Rightarrow> Inl OverflowError
           | y \<Rightarrow> Inr y)"

text \<open>The conversion of an int operand of a float operation.\<close>

definition int_to_float :: "int \<Rightarrow> py_exn + pyfloat" where
  "int_to_float n =
     (if n = 0 then Inr (Fin 0)
      else case round_double (of_int n) of
             PosInf \<Rightarrow> Inl OverflowError
           | NegInf \<Rightarrow> Inl OverflowError
           | y \<Rightarrow> Inr y)"

fun is_negative :: "pyfloat \<Rightarrow> bool" where
  "is_negative (Fin x) = (x < 0)"
| "is_negative MinusZero = True"
| "is_negative NegInf = True"
| "is_negative _ = False"

fun is_zero :: "pyfloat \<Rightarrow> bool" where
  "is_zero (Fin x) = (x = 0)"
| "is_zero MinusZero = True"
| "is_zero _ = False"

fun is_inf :: "pyfloat \<Rightarrow> bool" where
  "is_inf PosInf = True"
| "is_inf NegInf = True"
| "is_inf _ = False"

fun rat_of :: "pyfloat \<Rightarrow> rat" where
  "rat_of (Fin x) = x"
| "rat_of _ = 0"

text \<open>The product of two floats; it never raises.\<close>

definition float_mul :: "pyfloat \<Rightarrow> pyfloat \<Rightarrow> pyfloat" where
  "float_mul a b =
     (let neg = (is_negative a \<noteq> is_negative b)
      in if a = NaN \<or> b = NaN then NaN
         else if is_inf a \<or> is_inf b then
           (if is_zero a \<or> is_zero b then NaN else if neg then NegInf else PosInf)
         else if is_zero a \<or> is_zero b then (if neg then MinusZero else Fin 0)
         else round_double (rat_of a * rat_of b))"

text \<open>\<open>x * n\<close> for a float \<open>x\<close> and an int \<open>n\<close>.\<close>

definition float_mul_int :: "pyfloat \<Rightarrow> int \<Rightarrow> py_exn + pyfloat" where
  "float_mul_int x n =
     (case int_to_float n of Inl e \<Rightarrow> Inl e | Inr y \<Rightarrow> Inr (float_mul x y))"

text \<open>
  \<open>round(x, 2)\<close>: the float nearest to the decimal that has two digits after the point
  and is nearest to \<open>x\<close> (ties to even in both steps). Infinities and not-a-number are
  returned as they are, a zero result keeps the sign of \<open>x\<close>, and a result too large for
  a float raises \<open>OverflowError\<close>.
\<close>

definition round2 :: "pyfloat \<Rightarrow> py_exn + pyfloat" where
  "round2 x =
     (case x of
        Fin r \<Rightarrow>
          (let d = of_int (rne (r * 100)) / 100
           in if d = 0 then Inr (if r < 0 then MinusZero else Fin 0)
              else case round_double d of
                     PosInf \<Rightarrow> Inl OverflowError
                   | NegInf \<Rightarrow> Inl OverflowError
                   | y \<Rightarrow> Inr y)
      | _ \<Rightarrow> Inr x)"

text \<open>The comparison \<open>x >= 0\<close> on a float.\<close>

fun float_ge_zero :: "pyfloat \<Rightarrow> bool" where
  "float_ge_zero (Fin x) = (0 \<le> x)"
| "float_ge_zero MinusZero = True"
| "float_ge_zero PosInf = True"
| "float_ge_zero _ = False"


subsection \<open>Sequencing of calls that may raise\<close>

definition and_then :: "py_exn + 'a \<Rightarrow> ('a \<Rightarrow> py_exn + 'b) \<Rightarrow> py_exn + 'b" where
  "and_then m f = (case m of Inl e \<Rightarrow> Inl e | Inr x \<Rightarrow> f x)"

text \<open>A subscript \<open>d[k]\<close> on a dict: \<open>KeyError\<close> when the key is missing.\<close>

definition subscript :: "'a option \<Rightarrow> py_exn + 'a" where
  "subscript v = (case v of None \<Rightarrow> Inl KeyError | Some x \<Rightarrow> Inr x)"


section \<open>The data of the monitor\<close>

text \<open>
  The dict that \<open>container.stats(stream=False)\<close> returns, reduced to the entries that
  \<open>get_container_stats\<close> reads; \<open>None\<close> is a missing key.
  \<^item> \<open>cpu_total_usage\<close> is \<open>stats['cpu_stats']['cpu_usage']['total_usage']\<close>,
  \<^item> \<open>precpu_total_usage\<close> is \<open>stats['precpu_stats']['cpu_usage']['total_usage']\<close>,
  \<^item> \<open>cpu_system_usage\<close> is \<open>stats['cpu_stats']['system_cpu_usage']\<close>,
  \<^item> \<open>precpu_system_usage\<close> is \<open>stats['precpu_stats']['system_cpu_usage']\<close>,
  \<^item> \<open>percpu_usage\<close> is \<open>stats['cpu_stats']['cpu_usage']['percpu_usage']\<close>,
  \<^item> \<open>memory_usage\<close> is \<open>stats['memory_stats']['usage']\<close>,
  \<^item> \<open>memory_limit\<close> is \<open>stats['memory_stats']['limit']\<close>.
\<close>

record raw_stats =
  cpu_total_usage :: "int option"
  precpu_total_usage :: "int option"
  cpu_system_usage :: "int option"
  precpu_system_usage :: "int option"
  percpu_usage :: "int list option"
  memory_usage :: "int option"
  memory_limit :: "int option"

text \<open>
  The dict \<open>get_container_stats\<close> returns (its key \<open>'timestamp'\<close> is \<open>stats_timestamp\<close>),
  and the same dict after \<open>collect_metrics\<close> has stored the key \<open>'healthy'\<close> in it.
\<close>

record container_stats =
  container_name :: string
  cpu_percent :: pyfloat
  memory_usage_mb :: pyfloat
  memory_percent :: pyfloat
  status :: string
  stats_timestamp :: string

record container_entry = container_stats +
  healthy :: bool

text \<open>The dict \<open>get_system_stats\<close> returns (its key \<open>'timestamp'\<close> is \<open>system_timestamp\<close>).\<close>

record host_record =
  system_cpu_percent :: pyfloat
  system_memory_percent :: pyfloat
  system_memory_available_gb :: pyfloat
  system_timestamp :: string

text \<open>
  One element of \<open>self.data\<close>. The dict under \<open>'containers'\<close> is an association list in
  insertion order, as a Python dict is.
\<close>

record snapshot =
  timestamp :: string
  system :: host_record
  snap_containers :: "(string \<times> container_entry) list"

text \<open>
  A row of the CSV file: \<open>base_row\<close> holds the columns \<open>timestamp\<close>,
  \<open>system_cpu_percent\<close>, \<open>system_memory_percent\<close> and \<open>system_memory_available_gb\<close>;
  \<open>row = base_row.copy(); row.update({...})\<close> adds the six container columns.
\<close>

record base_row =
  row_timestamp :: string
  row_system_cpu_percent :: pyfloat
  row_system_memory_percent :: pyfloat
  row_system_memory_available_gb :: pyfloat

record row = base_row +
  row_container_name :: string
  container_cpu_percent :: pyfloat
  container_memory_usage_mb :: pyfloat
  container_memory_percent :: pyfloat
  container_healthy :: bool
  container_status :: string

datatype file_content = Json "snapshot list" | Csv "row list"

text \<open>
  The state of a \<open>PerformanceMonitor\<close>, with the two effects that the claims are about
  made part of it: \<open>files\<close> lists the files written so far, in order, and \<open>save_calls\<close>
  counts the invocations of \<open>save_data\<close>. Log lines are not modelled.
\<close>

record monitor =
  interval :: int
  data :: "snapshot list"
  running :: bool
  containers :: "(string \<times> string) list"
  files :: "(string \<times> file_content) list"
  save_calls :: nat

definition init :: "int \<Rightarrow> monitor" where
  "init interval_arg =
     \<lparr>interval = interval_arg,
      data = [],
      running = False,
      containers =
        [(''node-nextjs-app'', ''http://localhost:3001''),
         (''deno-nextjs-app'', ''http://localhost:3002''),
         (''bun-nextjs-app'', ''http://localhost:3003'')],
      files = [],
      save_calls = 0\<rparr>"


section \<open>The environment of one tick\<close>

text \<open>
  What the collaborators answer during one call of \<open>collect_metrics\<close>. Every call either
  raises or returns.
  \<^item> \<open>now\<close>: \<open>datetime.now().isoformat()\<close> in \<open>collect_metrics\<close>;
  \<^item> \<open>psutil\<close>: \<open>psutil.cpu_percent(interval=1)\<close>, \<open>psutil.virtual_memory().percent\<close> and
    \<open>psutil.virtual_memory().available\<close>;
  \<^item> \<open>system_now\<close>: \<open>datetime.now().isoformat()\<close> in \<open>get_system_stats\<close>;
  \<^item> \<open>docker\<close>: \<open>self.client.containers.get(name)\<close> followed by
    \<open>container.stats(stream=False)\<close>, with \<open>container.status\<close>;
  \<^item> \<open>stats_now\<close>: \<open>datetime.now().isoformat()\<close> in \<open>get_container_stats\<close>;
  \<^item> \<open>http_get\<close>: the status code of \<open>requests.get(url, timeout=5)\<close>.
\<close>

record tick_env =
  now :: string
  psutil :: "py_exn + (pyfloat \<times> pyfloat \<times> int)"
  system_now :: string
  docker :: "string \<Rightarrow> py_exn + (raw_stats \<times> string)"
  stats_now :: "string \<Rightarrow> string"
  http_get :: "string \<Rightarrow> py_exn + int"


section \<open>The operations of the monitor\<close>

subsection \<open>\<open>get_container_stats\<close>\<close>

text \<open>Lines 64 to 73: the CPU usage percentage, before it is rounded.\<close>

definition cpu_percent_calc :: "raw_stats \<Rightarrow> py_exn + pyfloat" where
  "cpu_percent_calc stats =
     and_then (subscript (cpu_total_usage stats)) (\<lambda>total.
     and_then (subscript (precpu_total_usage stats)) (\<lambda>pretotal.
     let cpu_delta = total - pretotal in
     and_then (subscript (cpu_system_usage stats)) (\<lambda>sys.
     and_then (subscript (precpu_system_usage stats)) (\<lambda>presys.
     let system_delta = sys - presys in
     if system_delta > 0 then
       and_then (int_truediv cpu_delta system_delta) (\<lambda>ratio.
       and_then (subscript (percpu_usage stats)) (\<lambda>percpu.
       and_then (float_mul_int ratio (int (length percpu))) (\<lambda>scaled.
       float_mul_int scaled 100)))
     else Inr (Fin 0)))))"

text \<open>The body of the \<open>try\<close> statement, lines 61 to 87.\<close>

definition stats_body :: "tick_env \<Rightarrow> string \<Rightarrow> py_exn + container_stats" where
  "stats_body env name =
     and_then (docker env name) (\<lambda>(stats, container_status).
     and_then (cpu_percent_calc stats) (\<lambda>cpu.
     and_then (subscript (memory_usage stats)) (\<lambda>usage.
     and_then (subscript (memory_limit stats)) (\<lambda>limit.
     and_then (int_truediv usage limit) (\<lambda>fraction.
     and_then (float_mul_int fraction 100) (\<lambda>mem_percent.
     and_then (round2 cpu) (\<lambda>cpu_rounded.
     and_then (int_truediv usage (1024 * 1024)) (\<lambda>mb.
     and_then (round2 mb) (\<lambda>mb_rounded.
     and_then (round2 mem_percent) (\<lambda>mem_rounded.
     Inr \<lparr>container_name = name,
          cpu_percent = cpu_rounded,
          memory_usage_mb = mb_rounded,
          memory_percent = mem_rounded,
          status = container_status,
          stats_timestamp = stats_now env name\<rparr>))))))))))"

text \<open>
  The whole function: \<open>except docker.errors.NotFound\<close> and \<open>except Exception\<close> both
  return \<open>None\<close>; an exception that is not an \<open>Exception\<close> passes through.
\<close>

definition get_container_stats :: "tick_env \<Rightarrow> string \<Rightarrow> py_exn + container_stats option" where
  "get_container_stats env name =
     (case stats_body env name of
        Inr r \<Rightarrow> Inr (Some r)
      | Inl e \<Rightarrow>
          if e = NotFound then Inr None
          else if is_Exception e then Inr None
          else Inl e)"

subsection \<open>\<open>check_container_health\<close>\<close>

definition check_container_health :: "tick_env \<Rightarrow> string \<Rightarrow> string \<Rightarrow> py_exn + bool" where
  "check_container_health env name url =
     (case http_get env url of
        Inr status_code \<Rightarrow> Inr (status_code = 200)
      | Inl e \<Rightarrow> if is_Exception e then Inr False else Inl e)"

subsection \<open>\<open>get_system_stats\<close>\<close>

definition get_system_stats :: "tick_env \<Rightarrow> py_exn + host_record" where
  "get_system_stats env =
     and_then (psutil env) (\<lambda>(cpu, mem_percent, available).
     and_then (int_truediv available (1024 ^ 3)) (\<lambda>gb.
     and_then (round2 gb) (\<lambda>gb_rounded.
     Inr \<lparr>system_cpu_percent = cpu,
          system_memory_percent = mem_percent,
          system_memory_available_gb = gb_rounded,
          system_timestamp = system_now env\<rparr>)))"

subsection \<open>\<open>collect_metrics\<close>\<close>

text \<open>
  The loop of lines 135 to 139 over \<open>self.containers.items()\<close>; \<open>m\<close> is
  \<open>metrics['containers']\<close>. The test \<open>if container_stats\<close> fails for \<open>None\<close> and holds for
  the dict, which has six keys.
\<close>

fun collect_containers ::
  "tick_env \<Rightarrow> (string \<times> string) list \<Rightarrow> (string \<times> container_entry) list
    \<Rightarrow> py_exn + (string \<times> container_entry) list" where
  "collect_containers env [] m = Inr m"
| "collect_containers env ((name, url) # rest) m =
     and_then (get_container_stats env name) (\<lambda>container_stats.
       case container_stats of
         None \<Rightarrow> collect_containers env rest m
       | Some st \<Rightarrow>
           and_then (check_container_health env name url) (\<lambda>h.
             collect_containers env rest
               (AList.update name (container_stats.extend st \<lparr>healthy = h\<rparr>) m)))"

definition collect_metrics :: "tick_env \<Rightarrow> monitor \<Rightarrow> py_exn + monitor" where
  "collect_metrics env s =
     and_then (get_system_stats env) (\<lambda>host.
     and_then (collect_containers env (containers s) []) (\<lambda>m.
     Inr (s\<lparr>data := data s @ [\<lparr>timestamp = now env, system = host, snap_containers = m\<rparr>]\<rparr>)))"

subsection \<open>\<open>save_data\<close>\<close>

text \<open>The test \<open>if stats\<close> of line 183 on a dict that has seven keys.\<close>

definition dict_truthy :: "container_entry \<Rightarrow> bool" where
  "dict_truthy stats = True"

text \<open>The inner loop, lines 182 to 193, appending to \<open>flattened_data\<close>.\<close>

fun flatten_containers ::
  "base_row \<Rightarrow> (string \<times> container_entry) list \<Rightarrow> row list \<Rightarrow> row list" where
  "flatten_containers base [] flattened_data = flattened_data"
| "flatten_containers base ((name, stats) # rest) flattened_data =
     flatten_containers base rest
       (if dict_truthy stats then
          flattened_data @
            [base_row.extend base
               \<lparr>row_container_name = name,
                container_cpu_percent = cpu_percent stats,
                container_memory_usage_mb = memory_usage_mb stats,
                container_memory_percent = memory_percent stats,
                container_healthy = healthy stats,
                container_status = status stats\<rparr>]
        else flattened_data)"

text \<open>The outer loop, lines 174 to 193.\<close>

fun flatten :: "snapshot list \<Rightarrow> row list \<Rightarrow> row list" where
  "flatten [] flattened_data = flattened_data"
| "flatten (entry # rest) flattened_data =
     flatten rest
       (flatten_containers
          \<lparr>row_timestamp = timestamp entry,
           row_system_cpu_percent = system_cpu_percent (system entry),
           row_system_memory_percent = system_memory_percent (system entry),
           row_system_memory_available_gb = system_memory_available_gb (system entry)\<rparr>
          (snap_containers entry) flattened_data)"

text \<open>
  What \<open>save_data\<close> returns: \<open>None\<close>, or the pair of the CSV path (which may be \<open>None\<close>)
  and the JSON path.
\<close>

datatype save_result = Returns_None | Returns_paths "string option" string

text \<open>
  \<open>stamp\<close> is \<open>datetime.now().strftime('%Y%m%d_%H%M%S')\<close>, read when no file name is
  given. Both writers are taken to accept what they are given.
\<close>

definition save_data :: "string option \<Rightarrow> string \<Rightarrow> monitor \<Rightarrow> save_result \<times> monitor" where
  "save_data filename stamp s =
     (let s0 = s\<lparr>save_calls := save_calls s + 1\<rparr>
      in if data s0 = [] then (Returns_None, s0)
         else
           let name = (case filename of None \<Rightarrow> ''performance_data_'' @ stamp | Some f \<Rightarrow> f);
               json_path = ''/app/data/'' @ name @ ''.json'';
               s1 = s0\<lparr>files := files s0 @ [(json_path, Json (data s0))]\<rparr>;
               flattened_data = flatten (data s1) []
           in if flattened_data \<noteq> [] then
                let csv_path = ''/app/data/'' @ name @ ''.csv''
                in (Returns_paths (Some csv_path) json_path,
                    s1\<lparr>files := files s1 @ [(csv_path, Csv flattened_data)]\<rparr>)
              else (Returns_paths None json_path, s1))"

subsection \<open>\<open>signal_handler\<close>\<close>

text \<open>
  The handler of \<open>SIGINT\<close> and \<open>SIGTERM\<close>: it ends with \<open>sys.exit(0)\<close>, which raises
  \<open>SystemExit\<close> in the code that the signal interrupted.
\<close>

definition signal_handler :: "string \<Rightarrow> monitor \<Rightarrow> py_exn \<times> monitor" where
  "signal_handler stamp s = (SystemExit, snd (save_data None stamp (s\<lparr>running := False\<rparr>)))"

subsection \<open>\<open>start_monitoring\<close>\<close>

text \<open>
  Where a termination signal is delivered during one iteration of the loop: while
  \<open>collect_metrics\<close> runs and before it appends to \<open>self.data\<close>, after \<open>collect_metrics\<close> and
  before the duration is checked, or during \<open>time.sleep\<close>.
\<close>

datatype signal_point = No_signal | In_collect | After_collect | In_sleep

text \<open>
  One iteration of the loop as the environment decides it: the answers of the
  collaborators, the signal, and \<open>clock\<close>, the value of \<open>time.time()\<close> at line 223. Clock
  values are the rationals the floats denote; the difference of two clock values of one
  run is exact in binary64.
\<close>

record iteration =
  tick :: tick_env
  signal :: signal_point
  clock :: rat

text \<open>
  A run: the value of \<open>time.time()\<close> at line 213, the iterations, and the time stamps
  that \<open>save_data\<close> reads in the signal handler and in the \<open>finally\<close> clause.
\<close>

record run_env =
  start_clock :: rat
  iterations :: "iteration list"
  handler_stamp :: string
  final_stamp :: string

text \<open>How the \<open>try\<close> statement is left.\<close>

datatype completion = Normal | Raised py_exn

text \<open>The test \<open>if duration and ...\<close>: \<open>None\<close> and \<open>0\<close> are false.\<close>

fun duration_reached :: "int option \<Rightarrow> rat \<Rightarrow> bool" where
  "duration_reached None elapsed = False"
| "duration_reached (Some d) elapsed = (d \<noteq> 0 \<and> of_int d \<le> elapsed)"

text \<open>
  \<open>time.sleep(secs)\<close> on an int: \<open>OverflowError\<close> when the nanoseconds do not fit a
  signed 64-bit integer, \<open>ValueError\<close> for a negative number.
\<close>

definition sleep_raises :: "int \<Rightarrow> py_exn option" where
  "sleep_raises secs =
     (if secs < - 9223372036 \<or> 9223372036 < secs then Some OverflowError
      else if secs < 0 then Some ValueError
      else None)"

text \<open>
  The \<open>while\<close> loop, lines 220 to 227. The result is \<open>None\<close> when the iterations that the
  environment describes are used up and the loop is still running.
\<close>

fun monitoring_loop ::
  "int option \<Rightarrow> rat \<Rightarrow> string \<Rightarrow> iteration list \<Rightarrow> monitor
    \<Rightarrow> (completion \<times> monitor) option" where
  "monitoring_loop duration start_time stamp [] s =
     (if running s then None else Some (Normal, s))"
| "monitoring_loop duration start_time stamp (it # its) s =
     (if \<not> running s then Some (Normal, s)
      else if signal it = In_collect then
        Some (Raised (fst (signal_handler stamp s)), snd (signal_handler stamp s))
      else
        case collect_metrics (tick it) s of
          Inl e \<Rightarrow> Some (Raised e, s)
        | Inr s1 \<Rightarrow>
            if signal it = After_collect then
              Some (Raised (fst (signal_handler stamp s1)), snd (signal_handler stamp s1))
            else if duration_reached duration (clock it - start_time) then Some (Normal, s1)
            else
              case sleep_raises (interval s1) of
                Some e \<Rightarrow> Some (Raised e, s1)
              | None \<Rightarrow>
                  if signal it = In_sleep then
                    Some (Raised (fst (signal_handler stamp s1)), snd (signal_handler stamp s1))
                  else monitoring_loop duration start_time stamp its s1)"

text \<open>
  The function: \<open>except KeyboardInterrupt\<close> ends the propagation of that exception, and
  the \<open>finally\<close> clause runs however the loop was left.
\<close>

definition start_monitoring ::
  "int option \<Rightarrow> run_env \<Rightarrow> monitor \<Rightarrow> (completion \<times> monitor) option" where
  "start_monitoring duration env s =
     (case monitoring_loop duration (start_clock env) (handler_stamp env) (iterations env)
             (s\<lparr>running := True\<rparr>) of
        None \<Rightarrow> None
      | Some (c, s1) \<Rightarrow>
          Some (if c = Raised KeyboardInterrupt then Normal else c,
                snd (save_data None (final_stamp env) (s1\<lparr>running := False\<rparr>))))"


section \<open>Auxiliary definitions\<close>

subsection \<open>The rows of one snapshot\<close>

definition mk_row :: "base_row \<Rightarrow> string \<times> container_entry \<Rightarrow> row" where
  "mk_row base p =
     base_row.extend base
       \<lparr>row_container_name = fst p,
        container_cpu_percent = cpu_percent (snd p),
        container_memory_usage_mb = memory_usage_mb (snd p),
        container_memory_percent = memory_percent (snd p),
        container_healthy = healthy (snd p),
        container_status = status (snd p)\<rparr>"

definition host_columns :: "snapshot \<Rightarrow> base_row" where
  "host_columns entry =
     \<lparr>row_timestamp = timestamp entry,
      row_system_cpu_percent = system_cpu_percent (system entry),
      row_system_memory_percent = system_memory_percent (system entry),
      row_system_memory_available_gb = system_memory_available_gb (system entry)\<rparr>"

definition rows_of :: "snapshot \<Rightarrow> row list" where
  "rows_of entry = map (mk_row (host_columns entry)) (snap_containers entry)"

text \<open>The files that one call of \<open>save_data\<close> writes.\<close>

definition written :: "string option \<Rightarrow> string \<Rightarrow> monitor \<Rightarrow> (string \<times> file_content) list" where
  "written filename stamp s = drop (length (files s)) (files (snd (save_data filename stamp s)))"

subsection \<open>The specification's formula for the CPU percentage\<close>

text \<open>
  \<open>round((cpu_delta/system_delta)*cores*100, 2)\<close>, as the specification writes it, with
  the operations of Python.
\<close>

definition spec_cpu_percent :: "int \<Rightarrow> int \<Rightarrow> int \<Rightarrow> py_exn + pyfloat" where
  "spec_cpu_percent cpu_delta system_delta cores =
     and_then (int_truediv cpu_delta system_delta) (\<lambda>ratio.
     and_then (float_mul_int ratio cores) (\<lambda>scaled.
     and_then (float_mul_int scaled 100) round2))"

text \<open>A float that is a non-negative number, and one that may also be \<open>+inf\<close>.\<close>

fun finite_nonneg :: "pyfloat \<Rightarrow> bool" where
  "finite_nonneg (Fin x) = (0 \<le> x)"
| "finite_nonneg _ = False"

fun nonneg :: "pyfloat \<Rightarrow> bool" where
  "nonneg (Fin x) = (0 \<le> x)"
| "nonneg PosInf = True"
| "nonneg _ = False"

text \<open>A float that is a number of magnitude at most \<open>2 ^ k\<close>.\<close>

fun bounded :: "int \<Rightarrow> pyfloat \<Rightarrow> bool" where
  "bounded k (Fin y) = (\<bar>y\<bar> \<le> pow2 k)"
| "bounded k MinusZero = True"
| "bounded k _ = False"

subsection \<open>The specification's success status\<close>

text \<open>
  The specification of the prober speaks of "a success status code"; in HTTP these are
  the codes of the class 2xx.
\<close>

definition spec_success_status :: "int \<Rightarrow> bool" where
  "spec_success_status code = (200 \<le> code \<and> code < 300)"

subsection \<open>The entries of a snapshot\<close>

text \<open>
  An entry of \<open>metrics['containers']\<close> is the dict that \<open>get_container_stats\<close> returned for
  a configured target, with the answer of the probe of that target's URL stored in it.
\<close>

definition probed :: "tick_env \<Rightarrow> (string \<times> string) list \<Rightarrow> string \<times> container_entry \<Rightarrow> bool" where
  "probed env cfg p \<longleftrightarrow>
     (\<exists>url st h. (fst p, url) \<in> set cfg \<and>
        get_container_stats env (fst p) = Inr (Some st) \<and>
        check_container_health env (fst p) url = Inr h \<and>
        snd p = container_stats.extend st \<lparr>healthy = h\<rparr>)"

subsection \<open>Iterations that pass without an event\<close>

text \<open>
  Whether \<open>collect_metrics\<close> returns or raises depends on the environment and on the
  configured targets only.
\<close>

definition tick_result :: "(string \<times> string) list \<Rightarrow> tick_env \<Rightarrow> py_exn + unit" where
  "tick_result cfg env =
     and_then (get_system_stats env) (\<lambda>host.
     and_then (collect_containers env cfg []) (\<lambda>m. Inr ()))"

definition tick_completes :: "(string \<times> string) list \<Rightarrow> tick_env \<Rightarrow> bool" where
  "tick_completes cfg env = (tick_result cfg env = Inr ())"

text \<open>
  An iteration after which the loop goes on: no signal, the tick completes, and the
  duration is not reached.
\<close>

definition quiet :: "(string \<times> string) list \<Rightarrow> int option \<Rightarrow> rat \<Rightarrow> iteration \<Rightarrow> bool" where
  "quiet cfg duration start_time it \<longleftrightarrow>
     signal it = No_signal \<and> tick_completes cfg (tick it) \<and>
     \<not> duration_reached duration (clock it - start_time)"

subsection \<open>Example inputs\<close>

definition example_stats :: raw_stats where
  "example_stats =
     \<lparr>cpu_total_usage = Some 2000000,
      precpu_total_usage = Some 1000000,
      cpu_system_usage = Some 30000000,
      precpu_system_usage = Some 20000000,
      percpu_usage = Some [0, 0, 0, 0],
      memory_usage = Some 52428800,
      memory_limit = Some 1073741824\<rparr>"

text \<open>
  An environment in which \<open>node-nextjs-app\<close> and \<open>bun-nextjs-app\<close> are found,
  \<open>deno-nextjs-app\<close> is not, and only the first answers the probe with status 200.
\<close>

definition example_env :: "string \<Rightarrow> tick_env" where
  "example_env t =
     \<lparr>now = t,
      psutil = Inr (Fin (25 / 2), Fin 40, 8589934592),
      system_now = t,
      docker = (\<lambda>name. if name = ''deno-nextjs-app'' then Inl NotFound
                       else Inr (example_stats, ''running'')),
      stats_now = (\<lambda>name. t),
      http_get = (\<lambda>url. if url = ''http://localhost:3001'' then Inr 200
                        else if url = ''http://localhost:3003'' then Inr 204
                        else Inl RequestException)\<rparr>"

text \<open>An environment in which every target is found with the same counters.\<close>

definition stats_env :: "raw_stats \<Rightarrow> tick_env" where
  "stats_env stats =
     \<lparr>now = ''t0'',
      psutil = Inr (Fin (25 / 2), Fin 40, 8589934592),
      system_now = ''t0'',
      docker = (\<lambda>name. Inr (stats, ''running'')),
      stats_now = (\<lambda>name. ''t0''),
      http_get = (\<lambda>url. Inr 200)\<rparr>"

text \<open>Counters of a first sample: the system counter has not moved.\<close>

definition idle_stats :: raw_stats where
  "idle_stats = example_stats\<lparr>cpu_system_usage := Some 20000000\<rparr>"

definition zero_limit_stats :: raw_stats where
  "zero_limit_stats = example_stats\<lparr>memory_limit := Some 0\<rparr>"

definition example_container_stats :: "string \<Rightarrow> pyfloat \<Rightarrow> container_stats" where
  "example_container_stats name cpu =
     \<lparr>container_name = name,
      cpu_percent = cpu,
      memory_usage_mb = Fin 50,
      memory_percent = Fin (5494391545392005 / 1125899906842624),
      status = ''running'',
      stats_timestamp = ''t0''\<rparr>"

definition example_host :: "string \<Rightarrow> host_record" where
  "example_host t =
     \<lparr>system_cpu_percent = Fin (25 / 2),
      system_memory_percent = Fin 40,
      system_memory_available_gb = Fin 8,
      system_timestamp = t\<rparr>"

definition example_entry :: "string \<Rightarrow> string \<Rightarrow> bool \<Rightarrow> container_entry" where
  "example_entry name t h =
     \<lparr>container_name = name,
      cpu_percent = Fin 40,
      memory_usage_mb = Fin 50,
      memory_percent = Fin (5494391545392005 / 1125899906842624),
      status = ''running'',
      stats_timestamp = t,
      healthy = h\<rparr>"

definition example_snapshot :: "string \<Rightarrow> snapshot" where
  "example_snapshot t =
     \<lparr>timestamp = t,
      system = example_host t,
      snap_containers =
        [(''node-nextjs-app'', example_entry ''node-nextjs-app'' t True),
         (''bun-nextjs-app'', example_entry ''bun-nextjs-app'' t False)]\<rparr>"

definition example_series :: "snapshot list" where
  "example_series =
     [example_snapshot ''t0'',
      (example_snapshot ''t1'')\<lparr>snap_containers := []\<rparr>,
      (example_snapshot ''t2'')\<lparr>snap_containers :=
         [(''node-nextjs-app'', example_entry ''node-nextjs-app'' ''t2'' True)]\<rparr>]"





definition signal_run :: run_env where
  "signal_run =
     \<lparr>start_clock = 1000,
      iterations =
        [\<lparr>tick = example_env ''t0'', signal = In_sleep, clock = 1002\<rparr>,
         \<lparr>tick = example_env ''t1'', signal = No_signal, clock = 1014\<rparr>],
      handler_stamp = ''20240101_000005'',
      final_stamp = ''20240101_000005''\<rparr>"


section \<open>Properties\<close>

subsection \<open>Rounding to binary64\<close>

text \<open>
  \<open>ilog2\<close> is the binary exponent, the test for an infinity in \<open>round_double\<close> is the
  comparison with \<open>2 ^ 1024\<close>, and a finite result of \<open>round_double\<close> is a binary64
  number within half a unit in the last place of its argument.
\<close>

lemma pow2_pos: "0 < pow2 e"
  by (simp add: pow2_def)

lemma pow2_powi: "pow2 e = 2 powi e"
  by (simp add: pow2_def power_int_def inverse_eq_divide power_one_over)

lemma pow2_add: "pow2 (a + b) = pow2 a * pow2 b"
  by (simp add: pow2_powi power_int_add)

lemma pow2_diff: "pow2 (a - b) = pow2 a / pow2 b"
  by (simp add: pow2_powi power_int_diff)

lemma pow2_mono: "a \<le> b \<Longrightarrow> pow2 a \<le> pow2 b"
  by (simp add: pow2_powi power_int_increasing)

lemma pow2_bitlen:
  assumes "0 < p"
  shows "pow2 (bitlen p - 1) \<le> of_int p" "(of_int p :: rat) < pow2 (bitlen p)"
proof -
  from bitlen_bounds[OF assms] have
    lo: "2 ^ nat (bitlen p - 1) \<le> p" and hi: "p < 2 ^ nat (bitlen p)" by simp_all
  from assms have b: "1 \<le> bitlen p"
    using bitlen_eq_zero_iff[of p] bitlen_nonneg[of p] by linarith
  from lo have "(of_int (2 ^ nat (bitlen p - 1)) :: rat) \<le> of_int p"
    by (simp only: of_int_le_iff)
  with b show "pow2 (bitlen p - 1) \<le> of_int p" by (simp add: pow2_def)
  from hi have "(of_int p :: rat) < of_int (2 ^ nat (bitlen p))"
    by (simp only: of_int_less_iff)
  with b show "(of_int p :: rat) < pow2 (bitlen p)" by (simp add: pow2_def)
qed

lemma ilog2_bounds:
  assumes "0 < x"
  shows "pow2 (ilog2 x) \<le> x \<and> x < pow2 (ilog2 x + 1)"
proof -
  obtain p q where pq: "quotient_of x = (p, q)" by (cases "quotient_of x")
  then have q: "0 < q" and x: "x = of_int p / of_int q"
    by (simp_all add: quotient_of_denom_pos quotient_of_div)
  with assms have p: "0 < p" by (simp add: zero_less_divide_iff)
  let ?e = "bitlen p - bitlen q"
  have qpos: "(0::rat) < of_int q" using q by simp
  have "x < pow2 (bitlen p) / pow2 (bitlen q - 1)"
  proof -
    have "x < pow2 (bitlen p) / of_int q"
      unfolding x using pow2_bitlen(2)[OF p] qpos by (simp add: divide_strict_right_mono)
    also have "\<dots> \<le> pow2 (bitlen p) / pow2 (bitlen q - 1)"
      using pow2_bitlen(1)[OF q] pow2_pos[of "bitlen q - 1"] pow2_pos[of "bitlen p"]
      by (simp add: divide_left_mono)
    finally show ?thesis .
  qed
  then have hi: "x < pow2 (?e + 1)"
    by (simp add: pow2_diff[symmetric] algebra_simps)
  have "pow2 (bitlen p - 1) / pow2 (bitlen q) \<le> x"
  proof -
    have "pow2 (bitlen p - 1) / pow2 (bitlen q) \<le> pow2 (bitlen p - 1) / of_int q"
      using pow2_bitlen(2)[OF q] qpos pow2_pos[of "bitlen p - 1"]
      by (simp add: divide_left_mono less_imp_le)
    also have "\<dots> \<le> x"
      unfolding x using pow2_bitlen(1)[OF p] qpos by (simp add: divide_right_mono)
    finally show ?thesis .
  qed
  then have lo: "pow2 (?e - 1) \<le> x"
    by (simp add: pow2_diff[symmetric] algebra_simps)
  show ?thesis
  proof (cases "pow2 ?e \<le> x")
    case True
    with hi pq show ?thesis by (simp add: ilog2_def)
  next
    case False
    with lo pq show ?thesis by (simp add: ilog2_def)
  qed
qed

lemma pow2_0: "pow2 0 = 1" by (simp add: pow2_def)

lemma pow2_strict_mono: "a < b \<Longrightarrow> pow2 a < pow2 b"
  by (simp add: pow2_powi power_int_strict_increasing)

lemma rne_error: "\<bar>of_int (rne t) - t\<bar> \<le> 1 / 2"
proof -
  have "of_int \<lfloor>t\<rfloor> \<le> t" "t < of_int \<lfloor>t\<rfloor> + 1" by linarith+
  then show ?thesis by (auto simp: rne_def Let_def abs_le_iff)
qed

lemma rne_le: "t \<le> of_int n \<Longrightarrow> rne t \<le> n"
proof -
  assume a: "t \<le> of_int n"
  then have f: "\<lfloor>t\<rfloor> \<le> n" by linarith
  show ?thesis
  proof (cases "\<lfloor>t\<rfloor> = n")
    case True
    then have "of_int n \<le> t" by (metis of_int_floor_le)
    with a have "t = of_int n" by simp
    then show ?thesis by (simp add: rne_def)
  next
    case False
    with f have "\<lfloor>t\<rfloor> + 1 \<le> n" by simp
    then show ?thesis by (auto simp: rne_def Let_def)
  qed
qed

lemma rne_ge: "of_int n \<le> t \<Longrightarrow> n \<le> rne t"
proof -
  assume "of_int n \<le> t"
  then have "n \<le> \<lfloor>t\<rfloor>" by linarith
  then show ?thesis by (auto simp: rne_def Let_def)
qed

lemma rne_of_int: "rne (of_int n) = n"
  by (simp add: rne_def)

lemma overflow_iff:
  assumes "m \<noteq> 0"
  shows "1024 < bitlen \<bar>m\<bar> + q \<longleftrightarrow> pow2 1024 \<le> \<bar>of_int m * pow2 q\<bar>"
proof -
  from assms have m: "0 < \<bar>m\<bar>" by simp
  have abs: "\<bar>of_int m * pow2 q\<bar> = of_int \<bar>m\<bar> * pow2 q"
    using pow2_pos[of q] by (simp add: abs_mult)
  have lo: "pow2 (bitlen \<bar>m\<bar> - 1 + q) \<le> of_int \<bar>m\<bar> * pow2 q"
    unfolding pow2_add using pow2_bitlen(1)[OF m] pow2_pos[of q]
    by (simp add: mult_right_mono)
  have hi: "of_int \<bar>m\<bar> * pow2 q < pow2 (bitlen \<bar>m\<bar> + q)"
    unfolding pow2_add using pow2_bitlen(2)[OF m] pow2_pos[of q]
    by (simp add: mult_strict_right_mono)
  show ?thesis
  proof
    assume "1024 < bitlen \<bar>m\<bar> + q"
    then have "pow2 1024 \<le> pow2 (bitlen \<bar>m\<bar> - 1 + q)" by (intro pow2_mono) simp
    with lo show "pow2 1024 \<le> \<bar>of_int m * pow2 q\<bar>" unfolding abs by simp
  next
    assume a: "pow2 1024 \<le> \<bar>of_int m * pow2 q\<bar>"
    show "1024 < bitlen \<bar>m\<bar> + q"
    proof (rule ccontr)
      assume "\<not> 1024 < bitlen \<bar>m\<bar> + q"
      then have "pow2 (bitlen \<bar>m\<bar> + q) \<le> pow2 1024" by (intro pow2_mono) simp
      with hi a show False unfolding abs by simp
    qed
  qed
qed

lemma round_double_Fin:
  assumes "x \<noteq> 0" "round_double x = Fin y"
  shows "\<exists>m q. y = of_int m * pow2 q \<and> \<bar>m\<bar> \<le> 2 ^ 53 \<and> - 1074 \<le> q \<and>
           \<bar>y\<bar> < pow2 1024 \<and> \<bar>y - x\<bar> \<le> pow2 q / 2 \<and>
           q = max (ilog2 \<bar>x\<bar> - 52) (- 1074)"
proof -
  let ?q = "max (ilog2 \<bar>x\<bar> - 52) (- 1074)"
  let ?m = "rne (x / pow2 ?q)"
  have qp: "0 < pow2 ?q" by (rule pow2_pos)
  from assms(2) have y: "y = of_int ?m * pow2 ?q" and nov: "\<not> 1024 < bitlen \<bar>?m\<bar> + ?q"
    by (auto simp: round_double_def Let_def split: if_splits)
  have small: "\<bar>y\<bar> < pow2 1024"
  proof (cases "?m = 0")
    case True
    with y pow2_pos[of 1024] show ?thesis by simp
  next
    case False
    from overflow_iff[OF False, of ?q] nov y show ?thesis by simp
  qed
  have err: "\<bar>y - x\<bar> \<le> pow2 ?q / 2"
  proof -
    have "y - x = (of_int ?m - x / pow2 ?q) * pow2 ?q"
      using qp by (simp add: y algebra_simps)
    then have "\<bar>y - x\<bar> = \<bar>of_int ?m - x / pow2 ?q\<bar> * pow2 ?q"
      using qp by (simp add: abs_mult)
    also have "\<dots> \<le> (1 / 2) * pow2 ?q"
      using rne_error[of "x / pow2 ?q"] qp by (intro mult_right_mono) simp_all
    finally show ?thesis by simp
  qed
  have mant: "\<bar>?m\<bar> \<le> 2 ^ 53"
  proof -
    define t where "t = x / pow2 ?q"
    define N :: int where "N = 2 ^ 53"
    from assms(1) have ax: "0 < \<bar>x\<bar>" by simp
    from ilog2_bounds[OF ax] have "\<bar>x\<bar> < pow2 (ilog2 \<bar>x\<bar> + 1)" by simp
    also have "\<dots> \<le> pow2 (?q + 53)" by (intro pow2_mono) simp
    finally have "\<bar>x\<bar> / pow2 ?q < pow2 53"
      using qp by (simp add: pow2_add divide_less_eq mult.commute)
    moreover have "\<bar>t\<bar> = \<bar>x\<bar> / pow2 ?q"
      using qp by (simp add: t_def abs_divide)
    moreover have "pow2 53 = of_int N" by (simp add: pow2_def N_def)
    ultimately have c: "\<bar>t\<bar> \<le> of_int N" by (simp only: less_imp_le)
    have u: "t \<le> of_int N" using c by (rule order_trans[OF abs_ge_self])
    have "- t \<le> of_int N" using c by (rule order_trans[OF abs_ge_minus_self])
    then have l: "of_int (- N) \<le> t" by simp
    from rne_le[OF u] rne_ge[OF l] have "\<bar>rne t\<bar> \<le> N" by (simp add: abs_le_iff)
    then show ?thesis by (simp only: N_def t_def)
  qed
  have low: "- 1074 \<le> ?q" by (rule max.cobounded2)
  show ?thesis
    by (intro exI[of _ ?m] exI[of _ ?q] conjI) (rule y mant low small err refl)+
qed

text \<open>Rounding does not exceed a power of two that bounds its argument.\<close>

lemma pow2_nat: "0 \<le> k \<Longrightarrow> pow2 k = of_int (2 ^ nat k)"
  by (simp add: pow2_def)

lemma ilog2_le:
  assumes "0 < x" "x \<le> pow2 k"
  shows "ilog2 x \<le> k"
proof (rule ccontr)
  assume "\<not> ilog2 x \<le> k"
  then have "pow2 k < pow2 (ilog2 x)" by (intro pow2_strict_mono) simp
  with ilog2_bounds[OF assms(1)] assms(2) show False by simp
qed

lemma rne_abs_le:
  assumes "\<bar>t\<bar> \<le> of_int N"
  shows "\<bar>rne t\<bar> \<le> N"
proof -
  have u: "t \<le> of_int N" using assms by (rule order_trans[OF abs_ge_self])
  have "- t \<le> of_int N" using assms by (rule order_trans[OF abs_ge_minus_self])
  then have l: "of_int (- N) \<le> t" by simp
  from rne_le[OF u] rne_ge[OF l] show ?thesis by (simp add: abs_le_iff)
qed

lemma round_double_bounded:
  assumes "x \<noteq> 0" "\<bar>x\<bar> \<le> pow2 k" "- 1074 \<le> k" "k \<le> 1023"
  shows "bounded k (round_double x)"
proof -
  define q where "q = max (ilog2 \<bar>x\<bar> - 52) (- 1074)"
  define m where "m = rne (x / pow2 q)"
  have qp: "0 < pow2 q" by (rule pow2_pos)
  from assms(1) have ax: "0 < \<bar>x\<bar>" by simp
  from ilog2_le[OF ax assms(2)] assms(3) have qk: "q \<le> k" by (simp add: q_def)
  define N :: int where "N = 2 ^ nat (k - q)"
  have pN: "pow2 (k - q) = of_int N" using qk by (simp add: pow2_nat N_def)
  have "\<bar>x / pow2 q\<bar> = \<bar>x\<bar> / pow2 q" using qp by (simp add: abs_divide)
  also have "\<dots> \<le> pow2 k / pow2 q" using assms(2) qp by (simp add: divide_right_mono)
  also have "\<dots> = of_int N" by (simp only: pow2_diff[symmetric] pN)
  finally have "\<bar>m\<bar> \<le> N" unfolding m_def by (rule rne_abs_le)
  then have "(of_int \<bar>m\<bar> :: rat) \<le> of_int N" by (simp only: of_int_le_iff)
  then have "of_int \<bar>m\<bar> * pow2 q \<le> of_int N * pow2 q"
    using qp by (simp add: mult_right_mono)
  also have "of_int N * pow2 q = pow2 k"
    by (simp only: pN[symmetric] pow2_add[symmetric]) simp
  finally have val: "\<bar>of_int m * pow2 q\<bar> \<le> pow2 k"
    using qp by (simp add: abs_mult)
  have nov: "\<not> 1024 < bitlen \<bar>m\<bar> + q"
  proof (cases "m = 0")
    case True
    with qk assms(4) show ?thesis by simp
  next
    case False
    have "pow2 k < pow2 1024" using assms(4) by (intro pow2_strict_mono) simp
    with val overflow_iff[OF False, of q] show ?thesis by simp
  qed
  have "round_double x =
     (if m = 0 then (if x < 0 then MinusZero else Fin 0) else Fin (of_int m * pow2 q))"
    using nov by (simp add: round_double_def Let_def q_def[symmetric] m_def[symmetric])
  with val pow2_pos[of k] show ?thesis by (simp add: less_imp_le)
qed

lemma bounded_cases:
  assumes "bounded k f"
  obtains y where "f = Fin y" "\<bar>y\<bar> \<le> pow2 k" | "f = MinusZero"
  using assms by (cases f) auto

lemma bounded_mono: "bounded j f \<Longrightarrow> j \<le> k \<Longrightarrow> bounded k f"
  using pow2_mono[of j k] by (cases f) auto

lemma round_double_bounded_Inr:
  assumes "bounded k (round_double x)"
  shows "(case round_double x of PosInf \<Rightarrow> Inl OverflowError | NegInf \<Rightarrow> Inl OverflowError
            | y \<Rightarrow> Inr y) = Inr (round_double x)"
  using assms by (cases "round_double x") simp_all

lemma int_truediv_bounded:
  assumes "b \<noteq> 0" "\<bar>a\<bar> \<le> 2 ^ nat k" "0 \<le> k" "k \<le> 1023"
  shows "\<exists>y. int_truediv a b = Inr y \<and> bounded k y"
proof (cases "a = 0")
  case True
  with assms(1) show ?thesis using pow2_pos[of k] by (simp add: int_truediv_def less_imp_le)
next
  case False
  let ?x = "of_int a / of_int b :: rat"
  from False assms(1) have nz: "?x \<noteq> 0" by simp
  from assms(1) have "(1::rat) \<le> \<bar>of_int b\<bar>"
    by (metis abs_zero dual_order.strict_iff_order of_int_1_le_iff of_int_abs zero_less_abs_iff
          zless_imp_add1_zle add_0)
  then have "\<bar>of_int a\<bar> / \<bar>of_int b\<bar> \<le> \<bar>of_int a :: rat\<bar> / 1"
    by (intro divide_left_mono) simp_all
  then have "\<bar>?x\<bar> \<le> \<bar>of_int a\<bar>"
    by (simp only: abs_divide div_by_1)
  also have "\<dots> \<le> of_int (2 ^ nat k)" using assms(2) by (simp only: of_int_abs[symmetric] of_int_le_iff)
  also have "\<dots> = pow2 k" using assms(3) by (simp add: pow2_nat)
  finally have "\<bar>?x\<bar> \<le> pow2 k" .
  from round_double_bounded[OF nz this] assms(3,4) have bd: "bounded k (round_double ?x)" by simp
  from round_double_bounded_Inr[OF bd] bd False assms(1) show ?thesis
    by (simp add: int_truediv_def)
qed

lemma int_to_float_bounded:
  assumes "\<bar>n\<bar> \<le> 2 ^ nat k" "0 \<le> k" "k \<le> 1023"
  shows "\<exists>y. int_to_float n = Inr y \<and> bounded k y"
proof (cases "n = 0")
  case True
  then show ?thesis using pow2_pos[of k] by (simp add: int_to_float_def less_imp_le)
next
  case False
  let ?x = "of_int n :: rat"
  from False have nz: "?x \<noteq> 0" by simp
  have "\<bar>?x\<bar> \<le> of_int (2 ^ nat k)" using assms(1) by (simp only: of_int_abs[symmetric] of_int_le_iff)
  also have "\<dots> = pow2 k" using assms(2) by (simp add: pow2_nat)
  finally have "\<bar>?x\<bar> \<le> pow2 k" .
  from round_double_bounded[OF nz this] assms(2,3) have bd: "bounded k (round_double ?x)" by simp
  from round_double_bounded_Inr[OF bd] bd False show ?thesis
    by (simp add: int_to_float_def)
qed

lemma float_mul_bounded:
  assumes "bounded j a" "bounded k b" "- 1074 \<le> j + k" "j + k \<le> 1023"
  shows "bounded (j + k) (float_mul a b)"
proof (cases "is_zero a \<or> is_zero b")
  case True
  from assms(1,2) have "a \<noteq> NaN" "b \<noteq> NaN" "\<not> is_inf a" "\<not> is_inf b"
    by (auto elim!: bounded_cases)
  with True show ?thesis using pow2_pos[of "j + k"] by (simp add: float_mul_def less_imp_le)
next
  case False
  with assms(1,2) obtain x y where
    a: "a = Fin x" "\<bar>x\<bar> \<le> pow2 j" "x \<noteq> 0" and b: "b = Fin y" "\<bar>y\<bar> \<le> pow2 k" "y \<noteq> 0"
    by (auto elim!: bounded_cases)
  have "\<bar>x * y\<bar> \<le> pow2 j * pow2 k"
    unfolding abs_mult using a(2) b(2) by (intro mult_mono) simp_all
  then have "\<bar>x * y\<bar> \<le> pow2 (j + k)" by (simp add: pow2_add)
  from round_double_bounded[OF _ this assms(3,4)] a(3) b(3)
  have "bounded (j + k) (round_double (x * y))" by simp
  with a b show ?thesis by (simp add: float_mul_def)
qed

lemma float_mul_int_bounded:
  assumes "bounded j x" "\<bar>n\<bar> \<le> 2 ^ nat k" "0 \<le> k" "k \<le> 1023"
    "- 1074 \<le> j + k" "j + k \<le> 1023"
  shows "\<exists>y. float_mul_int x n = Inr y \<and> bounded (j + k) y"
proof -
  from int_to_float_bounded[OF assms(2-4)] obtain f where
    f: "int_to_float n = Inr f" "bounded k f" by blast
  from float_mul_bounded[OF assms(1) f(2) assms(5,6)] f(1) show ?thesis
    by (simp add: float_mul_int_def)
qed

lemma round2_bounded:
  assumes "bounded k x" "0 \<le> k" "k \<le> 1022"
  shows "\<exists>y. round2 x = Inr y \<and> bounded (k + 1) y"
  using assms(1)
proof (cases rule: bounded_cases)
  case 2
  then show ?thesis by (simp add: round2_def)
next
  case (1 r)
  define d :: rat where "d = of_int (rne (r * 100)) / 100"
  show ?thesis
  proof (cases "d = 0")
    case True
    with 1 show ?thesis using pow2_pos[of "k + 1"] by (simp add: round2_def d_def less_imp_le)
  next
    case False
    have "\<bar>of_int (rne (r * 100)) - r * 100\<bar> \<le> 1 / 2" by (rule rne_error)
    then have "\<bar>d - r\<bar> \<le> 1 / 200" by (simp add: d_def abs_le_iff field_simps)
    then have "\<bar>d\<bar> \<le> \<bar>r\<bar> + 1 / 200" by linarith
    also have "\<dots> \<le> pow2 k + pow2 k"
    proof -
      have "pow2 0 \<le> pow2 k" using assms(2) by (rule pow2_mono)
      then have "1 / 200 \<le> pow2 k" by (simp add: pow2_0)
      with 1(2) show ?thesis by simp
    qed
    also have "\<dots> = pow2 (k + 1)"
    proof -
      have "pow2 1 = 2" by (simp add: pow2_def)
      then show ?thesis by (simp add: pow2_add)
    qed
    finally have "\<bar>d\<bar> \<le> pow2 (k + 1)" .
    from round_double_bounded[OF False this] assms(2,3)
    have bd: "bounded (k + 1) (round_double d)" by simp
    from round_double_bounded_Inr[OF bd] bd False 1 show ?thesis
      by (simp add: round2_def d_def[symmetric] Let_def)
  qed
qed

subsection \<open>Flattening\<close>

lemma flatten_containers_append:
  "flatten_containers base cs acc = acc @ map (mk_row base) cs"
  by (induction cs arbitrary: acc) (auto simp: mk_row_def dict_truthy_def)

lemma flatten_append: "flatten series acc = acc @ concat (map rows_of series)"
  by (induction series arbitrary: acc)
     (simp_all add: flatten_containers_append rows_of_def host_columns_def)

lemma length_rows_of: "length (rows_of e) = length (snap_containers e)"
  by (simp add: rows_of_def)

lemma length_concat_rows:
  "length (concat (map rows_of series)) = sum_list (map (length \<circ> snap_containers) series)"
  by (induction series) (simp_all add: length_rows_of)

lemma nth_concat_rows:
  "i < length series \<Longrightarrow> j < length (snap_containers (series ! i)) \<Longrightarrow>
   concat (map rows_of series) ! (sum_list (map (length \<circ> snap_containers) (take i series)) + j)
     = rows_of (series ! i) ! j"
proof (induction series arbitrary: i)
  case Nil
  then show ?case by simp
next
  case (Cons e es)
  show ?case
  proof (cases i)
    case 0
    with Cons.prems show ?thesis by (simp add: nth_append length_rows_of)
  next
    case (Suc k)
    with Cons.prems have "k < length es" "j < length (snap_containers (es ! k))" by simp_all
    from Cons.IH[OF this] Suc show ?thesis
      by (simp add: nth_append length_rows_of add.assoc)
  qed
qed

text \<open>
  Claim C6. Flattening a series yields as many rows as the snapshots have container
  entries in total. The rows come in the order of the snapshots: the row of the \<open>j\<close>-th
  entry of snapshot \<open>i\<close> stands after the rows of the snapshots before \<open>i\<close>, it carries
  the timestamp and the three host values of snapshot \<open>i\<close>, and the name of that entry.
\<close>

theorem flatten_rows:
  "length (flatten series []) = sum_list (map (length \<circ> snap_containers) series) \<and>
   (\<forall>i < length series. \<forall>j < length (snap_containers (series ! i)).
      let r = flatten series [] ! (sum_list (map (length \<circ> snap_containers) (take i series)) + j)
      in row_timestamp r = timestamp (series ! i) \<and>
         row_system_cpu_percent r = system_cpu_percent (system (series ! i)) \<and>
         row_system_memory_percent r = system_memory_percent (system (series ! i)) \<and>
         row_system_memory_available_gb r = system_memory_available_gb (system (series ! i)) \<and>
         row_container_name r = fst (snap_containers (series ! i) ! j))"
  by (simp add: flatten_append length_concat_rows nth_concat_rows rows_of_def mk_row_def
        host_columns_def base_row.defs Let_def)

theorem flatten_rows_witness:
  "length (flatten example_series []) = 3 \<and>
   row_timestamp (flatten example_series [] ! 2) = ''t2'' \<and>
   row_system_memory_available_gb (flatten example_series [] ! 2) = Fin 8 \<and>
   row_container_name (flatten example_series [] ! 2) = ''node-nextjs-app''"
proof -
  have i: "(2::nat) < length example_series"
    by (simp add: example_series_def)
  have j: "(0::nat) < length (snap_containers (example_series ! 2))"
    by (simp add: example_series_def)
  have k: "sum_list (map (length \<circ> snap_containers) (take 2 example_series)) + 0 = 2"
    by (simp add: example_series_def example_snapshot_def)
  have e: "timestamp (example_series ! 2) = ''t2''"
    "system_memory_available_gb (system (example_series ! 2)) = Fin 8"
    "fst (snap_containers (example_series ! 2) ! 0) = ''node-nextjs-app''"
    by (simp_all add: example_series_def example_snapshot_def example_host_def)
  have l: "sum_list (map (length \<circ> snap_containers) example_series) = 3"
    by (simp add: example_series_def example_snapshot_def)
  from flatten_rows[of example_series] i j show ?thesis
    unfolding Let_def k l e[symmetric] by (metis k)
qed

subsection \<open>Flushing\<close>

text \<open>
  Claim C7. \<open>save_data\<close> on an empty series returns \<open>None\<close>, which stands for both paths,
  and writes no file.
\<close>

theorem save_data_empty:
  "data s = [] \<Longrightarrow>
   fst (save_data filename stamp s) = Returns_None \<and>
   files (snd (save_data filename stamp s)) = files s"
  by (simp add: save_data_def)

theorem save_data_empty_witness:
  "data (init 10) = [] \<and>
   fst (save_data None ''20240101_000000'' (init 10)) = Returns_None \<and>
   files (snd (save_data None ''20240101_000000'' (init 10))) = []"
proof -
  have d: "data (init 10) = []" by (simp add: init_def)
  have f: "files (init 10) = []" by (simp add: init_def)
  from save_data_empty[OF d, of None "''20240101_000000''"] d f show ?thesis by simp
qed


text \<open>
  Claim C9. \<open>save_data\<close> leaves \<open>self.data\<close> as it was, so a second call with no tick in
  between writes the same contents again.
\<close>

theorem save_data_keeps_data:
  "data (snd (save_data filename stamp s)) = data s \<and>
   map snd (written filename' stamp' (snd (save_data filename stamp s)))
     = map snd (written filename stamp s)"
  by (simp add: save_data_def written_def Let_def)


subsection \<open>Calls that raise\<close>

lemma and_then_Inr: "and_then m f = Inr y \<longleftrightarrow> (\<exists>x. m = Inr x \<and> f x = Inr y)"
  by (cases m) (simp_all add: and_then_def)

lemma and_then_Inl: "and_then m f = Inl e \<longleftrightarrow> m = Inl e \<or> (\<exists>x. m = Inr x \<and> f x = Inl e)"
  by (cases m) (simp_all add: and_then_def)

lemma subscript_Inr: "subscript v = Inr x \<longleftrightarrow> v = Some x"
  by (cases v) (simp_all add: subscript_def)

lemma subscript_Inl: "subscript v = Inl e \<Longrightarrow> is_Exception e"
  by (cases v) (auto simp: subscript_def)

lemma int_truediv_Inl: "int_truediv a b = Inl e \<Longrightarrow> is_Exception e"
  by (auto simp: int_truediv_def split: if_splits pyfloat.splits)

lemma int_to_float_Inl: "int_to_float n = Inl e \<Longrightarrow> is_Exception e"
  by (auto simp: int_to_float_def split: if_splits pyfloat.splits)

lemma float_mul_int_Inl: "float_mul_int x n = Inl e \<Longrightarrow> is_Exception e"
  by (auto simp: float_mul_int_def dest: int_to_float_Inl split: sum.splits)

lemma round2_Inl: "round2 x = Inl e \<Longrightarrow> is_Exception e"
  by (auto simp: round2_def Let_def split: if_splits pyfloat.splits)

lemma cpu_percent_calc_Inl: "cpu_percent_calc stats = Inl e \<Longrightarrow> is_Exception e"
  unfolding cpu_percent_calc_def Let_def
  by (auto simp: and_then_Inl dest: subscript_Inl int_truediv_Inl float_mul_int_Inl split: if_splits)

lemma stats_body_Inl:
  "stats_body env name = Inl e \<Longrightarrow> docker env name = Inl e \<or> is_Exception e"
  unfolding stats_body_def
  by (auto simp: and_then_Inl
      dest: subscript_Inl int_truediv_Inl float_mul_int_Inl round2_Inl cpu_percent_calc_Inl)

lemma rne_nonneg: "0 \<le> x \<Longrightarrow> 0 \<le> rne x"
  by (auto simp: rne_def Let_def)

lemma round_double_nonneg: "0 < x \<Longrightarrow> nonneg (round_double x)"
  using rne_nonneg[of "x / pow2 (max (ilog2 \<bar>x\<bar> - 52) (- 1074))"] pow2_pos
  by (auto simp: round_double_def Let_def less_imp_le)

lemma round_double_not_inf_finite: "0 < x \<Longrightarrow> round_double x \<noteq> PosInf \<Longrightarrow> finite_nonneg (round_double x)"
  using round_double_nonneg[of x] by (cases "round_double x") simp_all

lemma int_truediv_nonneg:
  assumes "0 \<le> a" "0 < b" "int_truediv a b = Inr y"
  shows "finite_nonneg y"
proof (cases "a = 0")
  case True
  with assms show ?thesis by (auto simp: int_truediv_def)
next
  case False
  with assms have pos: "(0::rat) < of_int a / of_int b" by simp
  from assms False have "round_double (of_int a / of_int b) = y" "y \<noteq> PosInf"
    by (auto simp: int_truediv_def split: pyfloat.splits)
  with round_double_not_inf_finite[OF pos] show ?thesis by simp
qed

lemma int_to_float_nonneg:
  assumes "0 \<le> n" "int_to_float n = Inr y"
  shows "finite_nonneg y"
proof (cases "n = 0")
  case True
  with assms show ?thesis by (auto simp: int_to_float_def)
next
  case False
  with assms have pos: "(0::rat) < of_int n" by simp
  from assms False have "round_double (of_int n) = y" "y \<noteq> PosInf"
    by (auto simp: int_to_float_def split: pyfloat.splits)
  with round_double_not_inf_finite[OF pos] show ?thesis by simp
qed

lemma float_mul_finite_nonneg:
  assumes "finite_nonneg a" "finite_nonneg b"
  shows "nonneg (float_mul a b)"
proof -
  from assms obtain x y where [simp]: "a = Fin x" "b = Fin y" and xy: "0 \<le> x" "0 \<le> y"
    by (cases a; cases b) auto
  show ?thesis
  proof (cases "x = 0 \<or> y = 0")
    case True
    with xy show ?thesis by (auto simp: float_mul_def)
  next
    case False
    with xy have "0 < x * y" by simp
    from round_double_nonneg[OF this] False xy show ?thesis
      by (auto simp: float_mul_def)
  qed
qed

lemma float_mul_nonneg_pos:
  assumes "nonneg a" "b = Fin y" "0 < y"
  shows "nonneg (float_mul a b)"
proof (cases a)
  case (Fin x)
  with assms have "finite_nonneg a" "finite_nonneg b" by simp_all
  then show ?thesis by (rule float_mul_finite_nonneg)
qed (use assms in \<open>auto simp: float_mul_def\<close>)

lemma int_to_float_100: "int_to_float 100 = Inr (Fin 100)"
  by code_simp

lemma round2_nonneg: "nonneg x \<Longrightarrow> round2 x = Inr y \<Longrightarrow> nonneg y"
proof (cases x)
  case (Fin r)
  assume a: "nonneg x" "round2 x = Inr y"
  with Fin have r: "0 \<le> r" by simp
  then have m: "0 \<le> rne (r * 100)" by (simp add: rne_nonneg)
  show ?thesis
  proof (cases "rne (r * 100) = 0")
    case True
    with a Fin r show ?thesis by (auto simp: round2_def)
  next
    case False
    with m have pos: "(0::rat) < of_int (rne (r * 100)) / 100" by simp
    from a Fin False have "round_double (of_int (rne (r * 100)) / 100) = y"
      by (auto simp: round2_def Let_def split: pyfloat.splits)
    with round_double_nonneg[OF pos] show ?thesis by simp
  qed
qed (auto simp: round2_def)

lemma nonneg_ge_zero: "nonneg x \<Longrightarrow> float_ge_zero x"
  by (cases x) simp_all



subsection \<open>The CPU percentage\<close>

lemma cpu_percent_calc_eq:
  assumes "cpu_total_usage stats = Some a" "precpu_total_usage stats = Some b"
    "cpu_system_usage stats = Some c" "precpu_system_usage stats = Some d"
  shows "cpu_percent_calc stats =
     (if c - d > 0 then
        and_then (int_truediv (a - b) (c - d)) (\<lambda>ratio.
        and_then (subscript (percpu_usage stats)) (\<lambda>percpu.
        and_then (float_mul_int ratio (int (length percpu))) (\<lambda>scaled.
        float_mul_int scaled 100)))
      else Inr (Fin 0))"
  using assms by (simp add: cpu_percent_calc_def subscript_def and_then_def)

lemma round2_zero: "round2 (Fin 0) = Inr (Fin 0)"
  by (simp add: round2_def rne_def)

lemma get_container_stats_Some:
  "get_container_stats env name = Inr (Some r) \<longleftrightarrow> stats_body env name = Inr r"
  by (auto simp: get_container_stats_def split: sum.splits if_splits)

lemma stats_body_cpu:
  assumes "docker env name = Inr (stats, st)" "stats_body env name = Inr r"
  shows "\<exists>cpu. cpu_percent_calc stats = Inr cpu \<and> round2 cpu = Inr (cpu_percent r)"
  using assms unfolding stats_body_def
  by (auto simp: and_then_Inr)


text \<open>
  Claim C3. When the four counters are non-negative and the system counter has not
  advanced (\<open>system_delta \<le> 0\<close>), the conversion yields \<open>0.0\<close>, and so does the
  \<open>cpu_percent\<close> of the dict that \<open>get_container_stats\<close> returns.
\<close>

theorem cpu_percent_zero:
  assumes "cpu_total_usage stats = Some a" "precpu_total_usage stats = Some b"
    and "cpu_system_usage stats = Some c" "precpu_system_usage stats = Some d"
    and "0 \<le> a" "0 \<le> b" "0 \<le> c" "0 \<le> d"
    and "c - d \<le> 0"
  shows "cpu_percent_calc stats = Inr (Fin 0) \<and>
    (\<forall>env name st r. docker env name = Inr (stats, st) \<and>
        get_container_stats env name = Inr (Some r) \<longrightarrow> cpu_percent r = Fin 0)"
proof -
  from assms have z: "cpu_percent_calc stats = Inr (Fin 0)"
    by (simp add: cpu_percent_calc_eq)
  moreover have "cpu_percent r = Fin 0"
    if "docker env name = Inr (stats, st)" "get_container_stats env name = Inr (Some r)"
    for env name st r
    using stats_body_cpu[OF that(1)] that(2) z
    by (auto simp: get_container_stats_Some round2_zero)
  ultimately show ?thesis by blast
qed


theorem cpu_percent_zero_witness:
  "cpu_percent_calc idle_stats = Inr (Fin 0) \<and>
   get_container_stats (stats_env idle_stats) ''node-nextjs-app''
     = Inr (Some (example_container_stats ''node-nextjs-app'' (Fin 0))) \<and>
   cpu_percent (example_container_stats ''node-nextjs-app'' (Fin 0)) = Fin 0"
proof -
  have c: "cpu_total_usage idle_stats = Some 2000000"
    "precpu_total_usage idle_stats = Some 1000000"
    "cpu_system_usage idle_stats = Some 20000000"
    "precpu_system_usage idle_stats = Some 20000000"
    by (simp_all add: idle_stats_def example_stats_def)
  have d: "docker (stats_env idle_stats) ''node-nextjs-app'' = Inr (idle_stats, ''running'')"
    by (simp add: stats_env_def)
  have g: "get_container_stats (stats_env idle_stats) ''node-nextjs-app''
     = Inr (Some (example_container_stats ''node-nextjs-app'' (Fin 0)))"
    by code_simp
  have "cpu_percent_calc idle_stats = Inr (Fin 0) \<and>
    (\<forall>env name st r. docker env name = Inr (idle_stats, st) \<and>
        get_container_stats env name = Inr (Some r) \<longrightarrow> cpu_percent r = Fin 0)"
    using cpu_percent_zero[OF c] by simp
  with d g show ?thesis by blast
qed

text \<open>
  Claim C4. When the system counter has advanced, the \<open>cpu_percent\<close> that
  \<open>get_container_stats\<close> reports is the value of the specification's formula, with the
  length of \<open>percpu_usage\<close> for the number of cores, and it is not below zero when
  \<open>cpu_delta\<close> is not.
\<close>

theorem cpu_percent_formula:
  assumes "docker env name = Inr (stats, st)"
    and "cpu_total_usage stats = Some a" "precpu_total_usage stats = Some b"
    and "cpu_system_usage stats = Some c" "precpu_system_usage stats = Some d"
    and "percpu_usage stats = Some percpu"
    and "0 < c - d"
    and "get_container_stats env name = Inr (Some r)"
  shows "spec_cpu_percent (a - b) (c - d) (int (length percpu)) = Inr (cpu_percent r) \<and>
    (0 \<le> a - b \<longrightarrow> float_ge_zero (cpu_percent r))"
proof -
  from assms(8) have body: "stats_body env name = Inr r"
    by (simp add: get_container_stats_Some)
  from stats_body_cpu[OF assms(1) body] obtain cpu where
    cpu: "cpu_percent_calc stats = Inr cpu" and rnd: "round2 cpu = Inr (cpu_percent r)"
    by blast
  from cpu assms(2-7) obtain ratio scaled where
    ratio: "int_truediv (a - b) (c - d) = Inr ratio" and
    scaled: "float_mul_int ratio (int (length percpu)) = Inr scaled" and
    hundred: "float_mul_int scaled 100 = Inr cpu"
    by (auto simp: cpu_percent_calc_eq and_then_Inr subscript_Inr)
  with rnd have eq: "spec_cpu_percent (a - b) (c - d) (int (length percpu)) = Inr (cpu_percent r)"
    by (simp add: spec_cpu_percent_def and_then_def)
  have "float_ge_zero (cpu_percent r)" if nn: "0 \<le> a - b"
  proof -
    from int_truediv_nonneg[OF nn assms(7) ratio] have r1: "finite_nonneg ratio" .
    from scaled obtain cores where
      cores: "int_to_float (int (length percpu)) = Inr cores" and s: "scaled = float_mul ratio cores"
      by (auto simp: float_mul_int_def split: sum.splits)
    from int_to_float_nonneg[OF _ cores] have "finite_nonneg cores" by simp
    with r1 s have r2: "nonneg scaled" by (simp add: float_mul_finite_nonneg)
    from hundred have "cpu = float_mul scaled (Fin 100)"
      by (simp add: float_mul_int_def int_to_float_100)
    with r2 have "nonneg cpu" by (simp add: float_mul_nonneg_pos)
    from round2_nonneg[OF this rnd] show ?thesis by (rule nonneg_ge_zero)
  qed
  with eq show ?thesis by blast
qed


theorem cpu_percent_formula_witness:
  "get_container_stats (stats_env example_stats) ''node-nextjs-app''
     = Inr (Some (example_container_stats ''node-nextjs-app'' (Fin 40))) \<and>
   spec_cpu_percent (2000000 - 1000000) (30000000 - 20000000) 4 = Inr (Fin 40) \<and>
   float_ge_zero (Fin 40)"
proof -
  have c: "cpu_total_usage example_stats = Some 2000000"
    "precpu_total_usage example_stats = Some 1000000"
    "cpu_system_usage example_stats = Some 30000000"
    "precpu_system_usage example_stats = Some 20000000"
    "percpu_usage example_stats = Some [0, 0, 0, 0]"
    by (simp_all add: example_stats_def)
  have d: "docker (stats_env example_stats) ''node-nextjs-app'' = Inr (example_stats, ''running'')"
    by (simp add: stats_env_def)
  have g: "get_container_stats (stats_env example_stats) ''node-nextjs-app''
     = Inr (Some (example_container_stats ''node-nextjs-app'' (Fin 40)))"
    by code_simp
  have p: "(0::int) < 30000000 - 20000000" by simp
  from cpu_percent_formula[OF d c p g] g show ?thesis
    by (simp add: example_container_stats_def)
qed

text \<open>
  With all entries present, counter differences and a memory usage of at most \<open>2 ^ 64\<close>
  and a memory limit other than zero, no operation overflows and \<open>get_container_stats\<close>
  reports a dict.
\<close>

lemma cpu_percent_calc_bounded:
  assumes "cpu_total_usage stats = Some a" "precpu_total_usage stats = Some b"
    and "cpu_system_usage stats = Some c" "precpu_system_usage stats = Some d"
    and "percpu_usage stats = Some percpu"
    and "\<bar>a - b\<bar> \<le> 2 ^ 64" "length percpu \<le> 2 ^ 32"
  shows "\<exists>cpu. cpu_percent_calc stats = Inr cpu \<and> bounded 103 cpu"
proof (cases "0 < c - d")
  case False
  with assms(1-4) have "cpu_percent_calc stats = Inr (Fin 0)"
    by (simp add: cpu_percent_calc_def subscript_def and_then_def)
  then show ?thesis using pow2_pos[of 103] by (simp add: less_imp_le)
next
  case True
  then have nz: "c - d \<noteq> 0" by simp
  from int_truediv_bounded[OF nz, of "a - b" 64] assms(6) obtain ratio where
    ratio: "int_truediv (a - b) (c - d) = Inr ratio" "bounded 64 ratio" by auto
  have "\<bar>int (length percpu)\<bar> \<le> 2 ^ nat 32" using assms(7) by simp
  from float_mul_int_bounded[OF ratio(2) this] obtain scaled where
    scaled: "float_mul_int ratio (int (length percpu)) = Inr scaled" "bounded (64 + 32) scaled"
    by auto
  have "\<bar>100 :: int\<bar> \<le> 2 ^ nat 7" by simp
  from float_mul_int_bounded[OF scaled(2) this] obtain cpu where
    cpu: "float_mul_int scaled 100 = Inr cpu" "bounded (64 + 32 + 7) cpu"
    by auto
  from True assms(1-5) ratio(1) scaled(1) cpu show ?thesis
    by (simp add: cpu_percent_calc_def subscript_def and_then_def)
qed

lemma get_container_stats_reports:
  assumes "docker env name = Inr (stats, st)"
    and "cpu_total_usage stats = Some a" "precpu_total_usage stats = Some b"
    and "cpu_system_usage stats = Some c" "precpu_system_usage stats = Some d"
    and "percpu_usage stats = Some percpu"
    and "memory_usage stats = Some usage" "memory_limit stats = Some limit"
    and "\<bar>a - b\<bar> \<le> 2 ^ 64" "length percpu \<le> 2 ^ 32"
    and "\<bar>usage\<bar> \<le> 2 ^ 64" "limit \<noteq> 0"
  shows "\<exists>r. get_container_stats env name = Inr (Some r)"
proof -
  from cpu_percent_calc_bounded[OF assms(2-6) assms(9,10)] obtain cpu where
    cpu: "cpu_percent_calc stats = Inr cpu" "bounded 103 cpu" by blast
  from int_truediv_bounded[OF assms(12), of usage 64] assms(11) obtain fraction where
    fraction: "int_truediv usage limit = Inr fraction" "bounded 64 fraction" by auto
  have "\<bar>100 :: int\<bar> \<le> 2 ^ nat 7" by simp
  from float_mul_int_bounded[OF fraction(2) this] obtain mem_percent where
    mem_percent: "float_mul_int fraction 100 = Inr mem_percent" "bounded (64 + 7) mem_percent"
    by auto
  from round2_bounded[OF cpu(2)] obtain cpu_rounded where
    cpu_rounded: "round2 cpu = Inr cpu_rounded" by auto
  have "(1024 * 1024 :: int) \<noteq> 0" by simp
  from int_truediv_bounded[OF this, of usage 64] assms(11) obtain mb where
    mb: "int_truediv usage (1024 * 1024) = Inr mb" "bounded 64 mb" by auto
  from round2_bounded[OF mb(2)] obtain mb_rounded where
    mb_rounded: "round2 mb = Inr mb_rounded" by auto
  from round2_bounded[OF mem_percent(2)] obtain mem_rounded where
    mem_rounded: "round2 mem_percent = Inr mem_rounded" by auto
  from assms(1,7,8) cpu(1) fraction(1) mem_percent(1) cpu_rounded mb(1) mb_rounded mem_rounded
  have "\<exists>r. stats_body env name = Inr r"
    by (simp add: stats_body_def and_then_def subscript_def)
  then show ?thesis by (auto simp: get_container_stats_def)
qed

subsection \<open>The stats fetcher and the prober\<close>

lemma stats_body_zero_limit:
  assumes "docker env name = Inr (stats, st)" "memory_limit stats = Some 0"
  shows "\<exists>e. stats_body env name = Inl e"
proof (cases "cpu_percent_calc stats")
  case (Inl e)
  with assms show ?thesis by (simp add: stats_body_def and_then_def)
next
  case (Inr cpu)
  show ?thesis
  proof (cases "memory_usage stats")
    case None
    with assms Inr show ?thesis by (simp add: stats_body_def and_then_def subscript_def)
  next
    case (Some usage)
    with assms Inr show ?thesis
      by (simp add: stats_body_def and_then_def subscript_def int_truediv_def)
  qed
qed

lemma get_container_stats_caught:
  assumes "stats_body env name = Inl e" "is_Exception e"
  shows "get_container_stats env name = Inr None"
  using assms by (simp add: get_container_stats_def)


text \<open>
  Claim C10. When the call to Docker raises nothing but an \<open>Exception\<close>,
  \<open>get_container_stats\<close> returns: every exception of the body of its \<open>try\<close> statement
  yields \<open>None\<close>, and so does a memory limit of zero, whose division raises
  \<open>ZeroDivisionError\<close>.
\<close>

theorem get_container_stats_total:
  assumes "\<forall>e. docker env name = Inl e \<longrightarrow> is_Exception e"
  shows "(\<exists>r. get_container_stats env name = Inr r) \<and>
    (\<forall>e. stats_body env name = Inl e \<longrightarrow> get_container_stats env name = Inr None) \<and>
    (\<forall>stats st. docker env name = Inr (stats, st) \<and> memory_limit stats = Some 0
        \<longrightarrow> get_container_stats env name = Inr None)"
proof -
  have caught: "get_container_stats env name = Inr None" if "stats_body env name = Inl e" for e
  proof -
    from stats_body_Inl[OF that] assms have "is_Exception e" by blast
    with that show ?thesis by (rule get_container_stats_caught)
  qed
  moreover have "\<exists>r. get_container_stats env name = Inr r"
  proof (cases "stats_body env name")
    case (Inl e)
    with caught show ?thesis by blast
  next
    case (Inr r)
    then show ?thesis by (simp add: get_container_stats_def)
  qed
  moreover have "get_container_stats env name = Inr None"
    if "docker env name = Inr (stats, st)" "memory_limit stats = Some 0" for stats st
    using stats_body_zero_limit[OF that] caught by blast
  ultimately show ?thesis by blast
qed


theorem get_container_stats_total_witness:
  "docker (stats_env zero_limit_stats) ''node-nextjs-app'' = Inr (zero_limit_stats, ''running'') \<and>
   memory_limit zero_limit_stats = Some 0 \<and>
   get_container_stats (stats_env zero_limit_stats) ''node-nextjs-app'' = Inr None"
proof -
  have d: "docker (stats_env zero_limit_stats) ''node-nextjs-app''
     = Inr (zero_limit_stats, ''running'')"
    by (simp add: stats_env_def)
  have z: "memory_limit zero_limit_stats = Some 0"
    by (simp add: zero_limit_stats_def)
  have "\<forall>e. docker (stats_env zero_limit_stats) ''node-nextjs-app'' = Inl e \<longrightarrow> is_Exception e"
    by (simp add: stats_env_def)
  from get_container_stats_total[OF this] d z show ?thesis by blast
qed

text \<open>
  Claim C8, as the code has it. The prober returns \<open>True\<close> exactly when the GET returns
  the status code 200; every other status code and every \<open>Exception\<close> yield \<open>False\<close>, and
  the prober returns whenever the GET raises nothing but an \<open>Exception\<close>.
\<close>

theorem check_container_health_200:
  "(check_container_health env name url = Inr True \<longleftrightarrow> http_get env url = Inr 200) \<and>
   (\<forall>code. http_get env url = Inr code \<and> code \<noteq> 200
      \<longrightarrow> check_container_health env name url = Inr False) \<and>
   (\<forall>e. http_get env url = Inl e \<and> is_Exception e
      \<longrightarrow> check_container_health env name url = Inr False) \<and>
   ((\<forall>e. http_get env url = Inl e \<longrightarrow> is_Exception e)
      \<longrightarrow> (\<exists>b. check_container_health env name url = Inr b))"
  by (cases "http_get env url") (auto simp: check_container_health_def)


theorem check_container_health_200_witness:
  "http_get (example_env ''t0'') ''http://localhost:3001'' = Inr 200 \<and>
   check_container_health (example_env ''t0'') ''node-nextjs-app'' ''http://localhost:3001''
     = Inr True"
proof -
  have h: "http_get (example_env ''t0'') ''http://localhost:3001'' = Inr 200"
    by (simp add: example_env_def)
  with check_container_health_200[of "example_env ''t0''" "''node-nextjs-app''"
      "''http://localhost:3001''"]
  show ?thesis by blast
qed

text \<open>
  Claim C8 as the specification states it fails for the status code 204: it is a success
  status code, and the prober answers \<open>False\<close>.
\<close>

theorem success_status_204_unhealthy:
  "spec_success_status 204 \<and>
   http_get (example_env ''t0'') ''http://localhost:3003'' = Inr 204 \<and>
   check_container_health (example_env ''t0'') ''bun-nextjs-app'' ''http://localhost:3003''
     = Inr False"
  by (simp add: spec_success_status_def example_env_def check_container_health_def)


subsection \<open>The snapshot of one tick\<close>

lemma collect_containers_keys:
  "collect_containers env cfg m = Inr m' \<Longrightarrow>
   fst ` set m' = fst ` set m \<union>
     {n \<in> fst ` set cfg. \<exists>r. get_container_stats env n = Inr (Some r)}"
proof (induction cfg arbitrary: m)
  case Nil
  then show ?case by simp
next
  case (Cons p cfg)
  obtain name url where p: "p = (name, url)" by (cases p)
  from Cons.prems p obtain cs where
    g: "get_container_stats env name = Inr cs" by (auto simp: and_then_Inr)
  show ?case
  proof (cases cs)
    case None
    with Cons.prems p g have "collect_containers env cfg m = Inr m'"
      by (simp add: and_then_def)
    from Cons.IH[OF this] p g None show ?thesis by auto
  next
    case (Some st)
    with Cons.prems p g obtain h where
      h: "check_container_health env name url = Inr h" and
      rest: "collect_containers env cfg
               (AList.update name (container_stats.extend st \<lparr>healthy = h\<rparr>) m) = Inr m'"
      by (auto simp: and_then_Inr)
    from Cons.IH[OF rest] p g Some show ?thesis
      by (auto simp: dom_update)
  qed
qed

lemma collect_containers_distinct:
  "collect_containers env cfg m = Inr m' \<Longrightarrow> distinct (map fst m) \<Longrightarrow> distinct (map fst m')"
proof (induction cfg arbitrary: m)
  case Nil
  then show ?case by simp
next
  case (Cons p cfg)
  obtain name url where p: "p = (name, url)" by (cases p)
  from Cons.prems p obtain cs where
    g: "get_container_stats env name = Inr cs" by (auto simp: and_then_Inr)
  show ?case
  proof (cases cs)
    case None
    with Cons.prems p g have "collect_containers env cfg m = Inr m'"
      by (simp add: and_then_def)
    from Cons.IH[OF this Cons.prems(2)] show ?thesis .
  next
    case (Some st)
    with Cons.prems p g obtain h where
      rest: "collect_containers env cfg
               (AList.update name (container_stats.extend st \<lparr>healthy = h\<rparr>) m) = Inr m'"
      by (auto simp: and_then_Inr)
    from Cons.IH[OF rest distinct_update[OF Cons.prems(2)]] show ?thesis .
  qed
qed

lemma set_update_subset: "set (AList.update k v al) \<subseteq> insert (k, v) (set al)"
  by (induction al) auto

lemma collect_containers_entries:
  "collect_containers env cfg m = Inr m' \<Longrightarrow>
   \<forall>p \<in> set m. probed env cfg0 p \<Longrightarrow> set cfg \<subseteq> set cfg0 \<Longrightarrow>
   \<forall>p \<in> set m'. probed env cfg0 p"
proof (induction cfg arbitrary: m)
  case Nil
  then show ?case by simp
next
  case (Cons q cfg)
  obtain name url where q: "q = (name, url)" by (cases q)
  from Cons.prems q obtain cs where
    g: "get_container_stats env name = Inr cs" by (auto simp: and_then_Inr)
  show ?case
  proof (cases cs)
    case None
    with Cons.prems q g have "collect_containers env cfg m = Inr m'"
      by (simp add: and_then_def)
    from Cons.IH[OF this] Cons.prems show ?thesis by simp
  next
    case (Some st)
    with Cons.prems q g obtain h where
      h: "check_container_health env name url = Inr h" and
      rest: "collect_containers env cfg
               (AList.update name (container_stats.extend st \<lparr>healthy = h\<rparr>) m) = Inr m'"
      by (auto simp: and_then_Inr)
    have "probed env cfg0 (name, container_stats.extend st \<lparr>healthy = h\<rparr>)"
      using Cons.prems(3) q g Some h by (auto simp: probed_def)
    with Cons.prems(2) set_update_subset[of name "container_stats.extend st \<lparr>healthy = h\<rparr>" m]
    have "\<forall>p \<in> set (AList.update name (container_stats.extend st \<lparr>healthy = h\<rparr>) m).
            probed env cfg0 p"
      by blast
    from Cons.IH[OF rest this] Cons.prems(3) show ?thesis by simp
  qed
qed


text \<open>
  Claim C5. A tick that completes appends one snapshot. It holds the host record that
  \<open>get_system_stats\<close> returned, and an entry for a name exactly when the name is a
  configured target for which \<open>get_container_stats\<close> returned a dict; no name has two
  entries, and every entry is such a dict with the answer of the probe.
\<close>

theorem collect_metrics_snapshot:
  assumes "collect_metrics env s = Inr s'"
  shows "\<exists>snap. data s' = data s @ [snap] \<and>
    get_system_stats env = Inr (system snap) \<and>
    distinct (map fst (snap_containers snap)) \<and>
    (\<forall>n. n \<in> fst ` set (snap_containers snap) \<longleftrightarrow>
       n \<in> fst ` set (containers s) \<and> (\<exists>r. get_container_stats env n = Inr (Some r))) \<and>
    (\<forall>p \<in> set (snap_containers snap). probed env (containers s) p)"
proof -
  from assms obtain host m where
    host: "get_system_stats env = Inr host" and
    m: "collect_containers env (containers s) [] = Inr m" and
    s': "s' = s\<lparr>data := data s @ [\<lparr>timestamp = now env, system = host, snap_containers = m\<rparr>]\<rparr>"
    by (auto simp: collect_metrics_def and_then_Inr)
  let ?snap = "\<lparr>timestamp = now env, system = host, snap_containers = m\<rparr>"
  have "data s' = data s @ [?snap]" using s' by simp
  moreover have "get_system_stats env = Inr (system ?snap)" using host by simp
  moreover have "distinct (map fst (snap_containers ?snap))"
    using collect_containers_distinct[OF m] by simp
  moreover have "\<forall>n. n \<in> fst ` set (snap_containers ?snap) \<longleftrightarrow>
       n \<in> fst ` set (containers s) \<and> (\<exists>r. get_container_stats env n = Inr (Some r))"
    using collect_containers_keys[OF m] by auto
  moreover have "\<forall>p \<in> set (snap_containers ?snap). probed env (containers s) p"
    using collect_containers_entries[OF m, of "containers s"] by simp
  ultimately show ?thesis by blast
qed


theorem collect_metrics_snapshot_witness:
  "collect_metrics (example_env ''t0'') (init 10)
     = Inr ((init 10)\<lparr>data := [example_snapshot ''t0'']\<rparr>) \<and>
   get_system_stats (example_env ''t0'') = Inr (example_host ''t0'') \<and>
   (\<forall>n. n \<in> {''node-nextjs-app'', ''bun-nextjs-app''} \<longleftrightarrow>
      n \<in> fst ` set (containers (init 10)) \<and>
      (\<exists>r. get_container_stats (example_env ''t0'') n = Inr (Some r)))"
proof -
  have c: "collect_metrics (example_env ''t0'') (init 10)
     = Inr ((init 10)\<lparr>data := [example_snapshot ''t0'']\<rparr>)"
    by code_simp
  have d: "data (init 10) = []"
    by (simp add: init_def)
  have k: "fst ` set (snap_containers (example_snapshot ''t0''))
     = {''node-nextjs-app'', ''bun-nextjs-app''}"
    by (simp add: example_snapshot_def)
  have h: "system (example_snapshot ''t0'') = example_host ''t0''"
    by (simp add: example_snapshot_def)
  from collect_metrics_snapshot[OF c] obtain snap where
    "data ((init 10)\<lparr>data := [example_snapshot ''t0'']\<rparr>) = data (init 10) @ [snap]"
    "get_system_stats (example_env ''t0'') = Inr (system snap)"
    "\<forall>n. n \<in> fst ` set (snap_containers snap) \<longleftrightarrow>
       n \<in> fst ` set (containers (init 10)) \<and>
       (\<exists>r. get_container_stats (example_env ''t0'') n = Inr (Some r))"
    by blast
  with c d k h show ?thesis by simp
qed


subsection \<open>The monitoring loop\<close>

lemma collect_metrics_completes:
  assumes "tick_completes (containers s) env"
  shows "\<exists>snap. collect_metrics env s = Inr (s\<lparr>data := data s @ [snap]\<rparr>)"
  using assms
  by (auto simp: tick_completes_def tick_result_def collect_metrics_def and_then_def
        split: sum.splits)

lemma collect_metrics_raises:
  assumes "tick_result (containers s) env = Inl e"
  shows "collect_metrics env s = Inl e"
  using assms
  by (auto simp: tick_result_def collect_metrics_def and_then_def split: sum.splits)

text \<open>
  A tick completes when \<open>psutil\<close> answers, with at most \<open>2 ^ 64\<close> bytes of available
  memory, and the calls to Docker and the probes raise nothing but an \<open>Exception\<close>.
\<close>

lemma get_container_stats_returns:
  assumes "\<forall>e. docker env name = Inl e \<longrightarrow> is_Exception e"
  shows "\<exists>r. get_container_stats env name = Inr r"
proof (cases "stats_body env name")
  case (Inl e)
  from stats_body_Inl[OF Inl] assms have "is_Exception e" by blast
  with Inl show ?thesis by (simp add: get_container_stats_def)
next
  case (Inr r)
  then show ?thesis by (simp add: get_container_stats_def)
qed

lemma check_container_health_returns:
  assumes "\<forall>e. http_get env url = Inl e \<longrightarrow> is_Exception e"
  shows "\<exists>h. check_container_health env name url = Inr h"
  using assms by (cases "http_get env url") (auto simp: check_container_health_def)

lemma collect_containers_returns:
  assumes "\<forall>p \<in> set cfg. (\<forall>e. docker env (fst p) = Inl e \<longrightarrow> is_Exception e) \<and>
             (\<forall>e. http_get env (snd p) = Inl e \<longrightarrow> is_Exception e)"
  shows "\<exists>m'. collect_containers env cfg m = Inr m'"
  using assms
proof (induction cfg arbitrary: m)
  case Nil
  then show ?case by simp
next
  case (Cons p cfg)
  obtain name url where p: "p = (name, url)" by (cases p)
  from Cons.prems p have d: "\<forall>e. docker env name = Inl e \<longrightarrow> is_Exception e"
    and h: "\<forall>e. http_get env url = Inl e \<longrightarrow> is_Exception e"
    and rest: "\<forall>p \<in> set cfg. (\<forall>e. docker env (fst p) = Inl e \<longrightarrow> is_Exception e) \<and>
             (\<forall>e. http_get env (snd p) = Inl e \<longrightarrow> is_Exception e)"
    by simp_all
  from get_container_stats_returns[OF d] obtain cs where
    cs: "get_container_stats env name = Inr cs" by blast
  from check_container_health_returns[OF h] obtain b where
    b: "check_container_health env name url = Inr b" by blast
  show ?case
  proof (cases cs)
    case None
    with p cs Cons.IH[OF rest, of m] show ?thesis by (simp add: and_then_def)
  next
    case (Some st)
    with p cs b
      Cons.IH[OF rest, of "AList.update name (container_stats.extend st \<lparr>healthy = b\<rparr>) m"]
    show ?thesis by (simp add: and_then_def)
  qed
qed

lemma get_system_stats_returns:
  assumes "psutil env = Inr (cpu, mem_percent, available)" "\<bar>available\<bar> \<le> 2 ^ 64"
  shows "\<exists>host. get_system_stats env = Inr host"
proof -
  have "(1024 ^ 3 :: int) \<noteq> 0" by simp
  from int_truediv_bounded[OF this, of available 64] assms(2) obtain gb where
    gb: "int_truediv available (1024 ^ 3) = Inr gb" "bounded 64 gb" by auto
  from round2_bounded[OF gb(2)] obtain gb_rounded where "round2 gb = Inr gb_rounded" by auto
  with assms(1) gb(1) show ?thesis by (simp add: get_system_stats_def and_then_def)
qed

lemma tick_completes_if:
  assumes "psutil env = Inr (cpu, mem_percent, available)" "\<bar>available\<bar> \<le> 2 ^ 64"
    and "\<forall>p \<in> set cfg. (\<forall>e. docker env (fst p) = Inl e \<longrightarrow> is_Exception e) \<and>
           (\<forall>e. http_get env (snd p) = Inl e \<longrightarrow> is_Exception e)"
  shows "tick_completes cfg env"
proof -
  from get_system_stats_returns[OF assms(1,2)] obtain host where
    "get_system_stats env = Inr host" by blast
  moreover from collect_containers_returns[OF assms(3)] obtain m where
    "collect_containers env cfg [] = Inr m" by blast
  ultimately show ?thesis by (simp add: tick_completes_def tick_result_def and_then_def)
qed

lemma loop_quiet_prefix:
  assumes "running s" "sleep_raises (interval s) = None"
    and "\<forall>x \<in> set pre. quiet (containers s) duration start_time x"
  shows "\<exists>s1. monitoring_loop duration start_time stamp (pre @ rest) s
            = monitoring_loop duration start_time stamp rest s1 \<and>
          length (data s1) = length (data s) + length pre \<and>
          running s1 \<and> interval s1 = interval s \<and> containers s1 = containers s \<and>
          save_calls s1 = save_calls s \<and> files s1 = files s"
  using assms
proof (induction pre arbitrary: s)
  case Nil
  then show ?case by auto
next
  case (Cons x pre)
  from Cons.prems(3) have q: "signal x = No_signal" "tick_completes (containers s) (tick x)"
    "\<not> duration_reached duration (clock x - start_time)"
    by (simp_all add: quiet_def)
  from collect_metrics_completes[OF q(2)] obtain snap where
    c: "collect_metrics (tick x) s = Inr (s\<lparr>data := data s @ [snap]\<rparr>)" by blast
  let ?s = "s\<lparr>data := data s @ [snap]\<rparr>"
  have step: "monitoring_loop duration start_time stamp ((x # pre) @ rest) s
      = monitoring_loop duration start_time stamp (pre @ rest) ?s"
    using Cons.prems(1,2) q c by simp
  have "running ?s" "sleep_raises (interval ?s) = None"
    "\<forall>y \<in> set pre. quiet (containers ?s) duration start_time y"
    using Cons.prems by simp_all
  from Cons.IH[OF this] obtain s1 where
    "monitoring_loop duration start_time stamp (pre @ rest) ?s
       = monitoring_loop duration start_time stamp rest s1"
    "length (data s1) = length (data ?s) + length pre"
    "running s1" "interval s1 = interval ?s" "containers s1 = containers ?s"
    "save_calls s1 = save_calls ?s" "files s1 = files ?s"
    by blast
  with step show ?case by (intro exI[of _ s1]) simp
qed


lemma save_data_fields:
  "save_calls (snd (save_data filename stamp s)) = save_calls s + 1"
  "data (snd (save_data filename stamp s)) = data s"
  "running (snd (save_data filename stamp s)) = running s"
  by (simp_all add: save_data_def Let_def)

lemma signal_handler_fields:
  "fst (signal_handler stamp s) = SystemExit"
  "save_calls (snd (signal_handler stamp s)) = save_calls s + 1"
  "data (snd (signal_handler stamp s)) = data s"
  "\<not> running (snd (signal_handler stamp s))"
  by (simp_all add: signal_handler_def save_data_fields)

lemma finally_clause:
  assumes "monitoring_loop duration (start_clock env) (handler_stamp env) (iterations env)
             (s\<lparr>running := True\<rparr>) = Some (c, s1)"
  shows "\<exists>s'. start_monitoring duration env s
            = Some (if c = Raised KeyboardInterrupt then Normal else c, s') \<and>
          save_calls s' = save_calls s1 + 1 \<and> data s' = data s1 \<and> \<not> running s'"
  using assms by (simp add: start_monitoring_def save_data_fields)








subsection \<open>Leaving the loop by a signal or an exception\<close>

text \<open>
  An exception that \<open>collect_metrics\<close> raises leaves the loop through the \<open>finally\<close>
  clause: no further tick is made and \<open>save_data\<close> is called once.
\<close>

lemma start_monitoring_fault:
  assumes "sleep_raises (interval s) = None"
    and "iterations env = pre @ it # rest"
    and "\<forall>x \<in> set pre. quiet (containers s) duration (start_clock env) x"
    and "signal it \<noteq> In_collect" "tick_result (containers s) (tick it) = Inl e"
  shows "\<exists>s'. start_monitoring duration env s
            = Some (if e = KeyboardInterrupt then Normal else Raised e, s') \<and>
    length (data s') = length (data s) + length pre \<and>
    save_calls s' = save_calls s + 1 \<and> \<not> running s'"
proof -
  let ?s0 = "s\<lparr>running := True\<rparr>"
  have "running ?s0" "sleep_raises (interval ?s0) = None"
    "\<forall>x \<in> set pre. quiet (containers ?s0) duration (start_clock env) x"
    using assms by simp_all
  from loop_quiet_prefix[OF this, of "handler_stamp env" "it # rest"] obtain s1 where
    l: "monitoring_loop duration (start_clock env) (handler_stamp env) (pre @ it # rest) ?s0
         = monitoring_loop duration (start_clock env) (handler_stamp env) (it # rest) s1" and
    s1: "length (data s1) = length (data s) + length pre" "running s1"
      "containers s1 = containers s" "save_calls s1 = save_calls s"
    by auto
  from collect_metrics_raises[of s1 "tick it" e] assms(5) s1(3)
  have c: "collect_metrics (tick it) s1 = Inl e" by simp
  have "monitoring_loop duration (start_clock env) (handler_stamp env) (it # rest) s1
     = Some (Raised e, s1)"
    using s1(2) assms(4) c by simp
  with l assms(2) have "monitoring_loop duration (start_clock env) (handler_stamp env)
      (iterations env) ?s0 = Some (Raised e, s1)"
    by simp
  from finally_clause[OF this] s1 show ?thesis by auto
qed


lemma loop_signal_step:
  assumes "running s1"
    and "signal it = In_collect \<or>
         (tick_completes (containers s1) (tick it) \<and>
          (signal it = After_collect \<or>
           (signal it = In_sleep \<and> sleep_raises (interval s1) = None \<and>
            \<not> duration_reached duration (clock it - start_time))))"
  shows "\<exists>s2. monitoring_loop duration start_time stamp (it # rest) s1
            = Some (Raised SystemExit, s2) \<and>
          save_calls s2 = save_calls s1 + 1 \<and>
          length (data s2) = length (data s1) + (if signal it = In_collect then 0 else 1)"
proof (cases "signal it = In_collect")
  case True
  with assms(1) show ?thesis by (simp add: signal_handler_fields)
next
  case False
  with assms(2) have t: "tick_completes (containers s1) (tick it)" by blast
  from collect_metrics_completes[OF t] obtain snap where
    c: "collect_metrics (tick it) s1 = Inr (s1\<lparr>data := data s1 @ [snap]\<rparr>)" by blast
  from False assms(2) consider "signal it = After_collect"
    | "signal it = In_sleep" "sleep_raises (interval s1) = None"
      "\<not> duration_reached duration (clock it - start_time)"
    by auto
  then show ?thesis
  proof cases
    case 1
    with assms(1) c show ?thesis by (simp add: signal_handler_fields)
  next
    case 2
    with assms(1) c show ?thesis by (simp add: signal_handler_fields)
  qed
qed

lemma example_env_completes: "tick_completes (containers (init 10)) (example_env ''t0'')"
  unfolding tick_completes_def by code_simp


text \<open>
  Claim C1. A signal that is delivered in the loop ends it: no further tick is made.
  \<open>save_data\<close> is then called twice, not once: by \<open>signal_handler\<close>, and by the
  \<open>finally\<close> clause through which the \<open>SystemExit\<close> of \<open>sys.exit(0)\<close> leaves
  \<open>start_monitoring\<close>. This holds also when no tick has completed.
\<close>

theorem signal_flushes_twice:
  assumes "sleep_raises (interval s) = None"
    and "iterations env = pre @ it # rest"
    and "\<forall>x \<in> set pre. signal x = No_signal \<and> tick_completes (containers s) (tick x) \<and>
           \<not> duration_reached duration (clock x - start_clock env)"
    and "signal it = In_collect \<or>
         (tick_completes (containers s) (tick it) \<and>
          (signal it = After_collect \<or>
           (signal it = In_sleep \<and>
            \<not> duration_reached duration (clock it - start_clock env))))"
  shows "\<exists>s'. start_monitoring duration env s = Some (Raised SystemExit, s') \<and>
    save_calls s' = save_calls s + 2 \<and>
    length (data s') = length (data s) + length pre + (if signal it = In_collect then 0 else 1) \<and>
    \<not> running s'"
proof -
  let ?s0 = "s\<lparr>running := True\<rparr>"
  have "running ?s0" "sleep_raises (interval ?s0) = None"
    "\<forall>x \<in> set pre. quiet (containers ?s0) duration (start_clock env) x"
    using assms(1,3) by (simp_all add: quiet_def)
  from loop_quiet_prefix[OF this, of "handler_stamp env" "it # rest"] obtain s1 where
    l: "monitoring_loop duration (start_clock env) (handler_stamp env) (pre @ it # rest) ?s0
         = monitoring_loop duration (start_clock env) (handler_stamp env) (it # rest) s1" and
    s1: "length (data s1) = length (data s) + length pre" "running s1"
      "containers s1 = containers s" "save_calls s1 = save_calls s" "interval s1 = interval s"
    by auto
  have "signal it = In_collect \<or>
         (tick_completes (containers s1) (tick it) \<and>
          (signal it = After_collect \<or>
           (signal it = In_sleep \<and> sleep_raises (interval s1) = None \<and>
            \<not> duration_reached duration (clock it - start_clock env))))"
    using assms(1,4) s1(3,5) by auto
  from loop_signal_step[OF s1(2) this, of "handler_stamp env" rest] obtain s2 where
    s2: "monitoring_loop duration (start_clock env) (handler_stamp env) (it # rest) s1
           = Some (Raised SystemExit, s2)"
      "save_calls s2 = save_calls s1 + 1"
      "length (data s2) = length (data s1) + (if signal it = In_collect then 0 else 1)"
    by blast
  with l assms(2) have "monitoring_loop duration (start_clock env) (handler_stamp env)
      (iterations env) ?s0 = Some (Raised SystemExit, s2)"
    by simp
  from finally_clause[OF this] s1 s2 show ?thesis by auto
qed

text \<open>
  The run in which the first tick completes and the signal is delivered during the first
  sleep: both calls of \<open>save_data\<close> write the JSON file and the CSV file.
\<close>

theorem signal_flushes_twice_witness:
  "(\<exists>s'. start_monitoring None signal_run (init 10) = Some (Raised SystemExit, s') \<and>
      save_calls s' = 2 \<and> length (data s') = 1 \<and> \<not> running s') \<and>
   map_option (\<lambda>(c, s). map fst (files s)) (start_monitoring None signal_run (init 10))
     = Some [''/app/data/performance_data_20240101_000005.json'',
             ''/app/data/performance_data_20240101_000005.csv'',
             ''/app/data/performance_data_20240101_000005.json'',
             ''/app/data/performance_data_20240101_000005.csv'']"
proof -
  let ?it = "\<lparr>tick = example_env ''t0'', signal = In_sleep, clock = 1002\<rparr>"
  let ?rest = "[\<lparr>tick = example_env ''t1'', signal = No_signal, clock = 1014\<rparr>]"
  have i: "iterations signal_run = [] @ ?it # ?rest"
    by (simp add: signal_run_def)
  have p: "\<forall>x \<in> set []. signal x = No_signal \<and>
      tick_completes (containers (init 10)) (tick x) \<and>
      \<not> duration_reached None (clock x - start_clock signal_run)"
    by simp
  have l: "signal ?it = In_collect \<or>
         (tick_completes (containers (init 10)) (tick ?it) \<and>
          (signal ?it = After_collect \<or>
           (signal ?it = In_sleep \<and>
            \<not> duration_reached None (clock ?it - start_clock signal_run))))"
    by (simp add: example_env_completes)
  have n: "sleep_raises (interval (init 10)) = None" "data (init 10) = []" "save_calls (init 10) = 0"
    by (simp_all add: init_def sleep_raises_def)
  have f: "map_option (\<lambda>(c, s). map fst (files s)) (start_monitoring None signal_run (init 10))
     = Some [''/app/data/performance_data_20240101_000005.json'',
             ''/app/data/performance_data_20240101_000005.csv'',
             ''/app/data/performance_data_20240101_000005.json'',
             ''/app/data/performance_data_20240101_000005.csv'']"
    by code_simp
  have "\<exists>s'. start_monitoring None signal_run (init 10) = Some (Raised SystemExit, s') \<and>
      save_calls s' = 2 \<and> length (data s') = 1 \<and> \<not> running s'"
    using signal_flushes_twice[OF n(1) i p l] n by (simp add: numeral_2_eq_2)
  with f show ?thesis by (rule conjI[rotated])
qed

end
